(* ===== verification/Prelude.thy ===== *)
theory Prelude
  imports Main "HOL-Library.Word"
begin

text \<open>
  Prelude of the Cachegate development: the machine integers of the Rust code, bytes, the
  reading of \<open>Result\<close> as a sum (\<open>Inl\<close> is \<open>Err\<close>, \<open>Inr\<close> is \<open>Ok\<close>), the collections of facts
  the components fill, and the generic lemmas on lists, maps and options that they share.
\<close>

section \<open>Collections of facts\<close>

named_theorems exec_simps \<open>one rule per operation of the effect semantics\<close>
named_theorems disc_intros \<open>guard discipline of the programs\<close>

section \<open>Machine integers and bytes\<close>

type_synonym u8 = "8 word"
type_synonym u64 = "64 word"
type_synonym u128 = "128 word"
type_synonym bytes = "u8 list"

text \<open>An \<open>f32\<close> is kept by its bit pattern: the code passes it on and never computes with it.\<close>

type_synonym f32 = "32 word"

text \<open>
  Lengths of buffers (\<open>usize\<close>) are natural numbers: a buffer in memory is shorter than \<open>2 ^ 64\<close>, and
  the code subtracts lengths with the saturating operation only. (\<open>as usize\<close> keeps a \<open>u64\<close> on the
  64-bit targets the program is built for.) Counters and sizes that can wrap stay words.
\<close>

definition usize_saturating_sub :: "nat \<Rightarrow> nat \<Rightarrow> nat" where
  "usize_saturating_sub a b = (if a < b then 0 else a - b)"

lemma usize_saturating_sub_eq [simp]: "usize_saturating_sub a b = a - b"
  by (simp add: usize_saturating_sub_def)

section \<open>Results\<close>

abbreviation result_map :: "('a \<Rightarrow> 'b) \<Rightarrow> 'e + 'a \<Rightarrow> 'e + 'b" where
  "result_map f r \<equiv> map_sum (\<lambda>e. e) f r"

text \<open>\<open>Option::ok_or\<close> and the \<open>?\<close> operator (\<open>Result::and_then\<close> with early return).\<close>

definition ok_or :: "'e \<Rightarrow> 'a option \<Rightarrow> 'e + 'a" where
  "ok_or e x = (case x of None \<Rightarrow> Inl e | Some v \<Rightarrow> Inr v)"

definition and_then :: "'e + 'a \<Rightarrow> ('a \<Rightarrow> 'e + 'b) \<Rightarrow> 'e + 'b" where
  "and_then r f = (case r of Inl e \<Rightarrow> Inl e | Inr v \<Rightarrow> f v)"

lemma ok_or_simps [simp]: "ok_or e None = Inl e" "ok_or e (Some v) = Inr v"
  by (simp_all add: ok_or_def)

lemma ok_or_eq_Inr [simp]: "ok_or e x = Inr v \<longleftrightarrow> x = Some v"
  by (cases x) auto

lemma ok_or_eq_Inl [simp]: "ok_or e x = Inl f \<longleftrightarrow> x = None \<and> f = e"
  by (cases x) auto

lemma and_then_simps [simp]: "and_then (Inl e) f = Inl e" "and_then (Inr v) f = f v"
  by (simp_all add: and_then_def)

lemma and_then_eq_Inr [simp]: "and_then r f = Inr w \<longleftrightarrow> (\<exists>v. r = Inr v \<and> f v = Inr w)"
  by (cases r) auto

lemma and_then_eq_Inl:
  "and_then r f = Inl e \<longleftrightarrow> r = Inl e \<or> (\<exists>v. r = Inr v \<and> f v = Inl e)"
  by (cases r) auto

section \<open>Lists and maps\<close>

lemma dropWhile_id: "(xs = [] \<or> \<not> P (hd xs)) \<Longrightarrow> dropWhile P xs = xs"
  by (cases xs) auto

lemma map_le_insert_fresh: "m k = None \<Longrightarrow> m \<subseteq>\<^sub>m m(k \<mapsto> v)"
  by (auto simp: map_le_def)

lemma map_leD: "m \<subseteq>\<^sub>m n \<Longrightarrow> m k = Some v \<Longrightarrow> n k = Some v"
  by (force simp: map_le_def dom_def)

lemma map_eqI: "(\<And>k v. m k = Some v \<longleftrightarrow> n k = Some v) \<Longrightarrow> m = n"
proof
  fix k
  assume "\<And>k v. m k = Some v \<longleftrightarrow> n k = Some v"
  then show "m k = n k" by (cases "m k"; cases "n k") force+
qed

text \<open>Searching for the only element of its kind.\<close>

lemma find_unique:
  assumes "\<And>u. P u \<Longrightarrow> u < n" and "\<And>u v. P u \<Longrightarrow> P v \<Longrightarrow> u = v"
  shows "find P [0..<n] = Some t \<longleftrightarrow> P t"
proof
  show "P t" if "find P [0..<n] = Some t"
    using that by (auto simp: find_Some_iff)
next
  assume t: "P t"
  then have "t \<in> set [0..<n]" using assms(1) by simp
  with t obtain u where "find P [0..<n] = Some u"
    by (cases "find P [0..<n]") (auto simp: find_None_iff)
  moreover from this have "P u" by (auto simp: find_Some_iff)
  ultimately show "find P [0..<n] = Some t" using assms(2) t by blast
qed

end
