(* ===== verification/Rust_Str.thy ===== *)
theory Rust_Str
  imports Prelude
begin

text \<open>
  The part of Rust's \<open>str\<close> that Cachegate uses. A string is the list of its Unicode scalar
  values; \<open>lit\<close> turns an Isabelle literal into one. Every operation is the standard library's:
  \<open>split\<close>, \<open>split_once\<close>, \<open>splitn(2, _)\<close>, \<open>trim\<close>, \<open>trim_matches\<close>, \<open>split_whitespace\<close>,
  \<open>starts_with\<close>, \<open>contains\<close>, the ASCII case operations and decimal printing.
\<close>

section \<open>Strings and literals\<close>

type_synonym uchar = nat
type_synonym rstr = "uchar list"

definition lit :: "string \<Rightarrow> rstr" where
  "lit s = map of_char s"

lemma lit_eq_iff [simp]: "lit a = lit b \<longleftrightarrow> a = b"
  unfolding lit_def by (rule inj_map_eq_map) (rule inj_of_char)

lemma lit_eq_Nil [simp]: "lit a = [] \<longleftrightarrow> a = []" "[] = lit a \<longleftrightarrow> a = []"
  by (simp_all add: lit_def)

lemma length_lit [simp]: "length (lit s) = length s"
  by (simp add: lit_def)

section \<open>Characters\<close>

text \<open>\<open>char::is_whitespace\<close>: the code points with the property White_Space.\<close>

definition is_whitespace :: "uchar \<Rightarrow> bool" where
  "is_whitespace c \<longleftrightarrow> (9 \<le> c \<and> c \<le> 13) \<or> c = 32 \<or> c = 133 \<or> c = 160 \<or> c = 5760
     \<or> (8192 \<le> c \<and> c \<le> 8202) \<or> c = 8232 \<or> c = 8233 \<or> c = 8239 \<or> c = 8287 \<or> c = 12288"

definition ascii_lower :: "uchar \<Rightarrow> uchar" where
  "ascii_lower c = (if 65 \<le> c \<and> c \<le> 90 then c + 32 else c)"

definition ascii_upper :: "uchar \<Rightarrow> uchar" where
  "ascii_upper c = (if 97 \<le> c \<and> c \<le> 122 then c - 32 else c)"

lemma ascii_lower_idem [simp]: "ascii_lower (ascii_lower c) = ascii_lower c"
  by (simp add: ascii_lower_def)

section \<open>Case\<close>

definition to_ascii_lowercase :: "rstr \<Rightarrow> rstr" where
  "to_ascii_lowercase s = map ascii_lower s"

definition eq_ignore_ascii_case :: "rstr \<Rightarrow> rstr \<Rightarrow> bool" where
  "eq_ignore_ascii_case a b \<longleftrightarrow> to_ascii_lowercase a = to_ascii_lowercase b"

text \<open>
  \<open>str::to_uppercase\<close> maps every character on its own; beyond ASCII the table is Unicode's and
  is the parameter \<open>up\<close>.
\<close>

definition to_uppercase :: "(uchar \<Rightarrow> rstr) \<Rightarrow> rstr \<Rightarrow> rstr" where
  "to_uppercase up s = concat (map (\<lambda>c. if c < 128 then [ascii_upper c] else up c) s)"

lemma eq_ignore_ascii_case_refl [simp]: "eq_ignore_ascii_case s s"
  by (simp add: eq_ignore_ascii_case_def)

lemma to_ascii_lowercase_idem [simp]:
  "to_ascii_lowercase (to_ascii_lowercase s) = to_ascii_lowercase s"
  by (simp add: to_ascii_lowercase_def)

section \<open>Searching\<close>

definition starts_with :: "rstr \<Rightarrow> rstr \<Rightarrow> bool" where
  "starts_with pat s \<longleftrightarrow> take (length pat) s = pat"

fun contains :: "rstr \<Rightarrow> rstr \<Rightarrow> bool" where
  "contains pat [] \<longleftrightarrow> pat = []"
| "contains pat (c # s) \<longleftrightarrow> starts_with pat (c # s) \<or> contains pat s"

lemma starts_with_append [simp]: "starts_with pat (pat @ s)"
  by (simp add: starts_with_def)

lemma starts_with_iff: "starts_with pat s \<longleftrightarrow> (\<exists>r. s = pat @ r)"
  by (metis append_eq_conv_conj append_take_drop_id starts_with_def)

lemma contains_iff: "contains pat s \<longleftrightarrow> (\<exists>a b. s = a @ pat @ b)"
proof (induction s)
  case Nil
  then show ?case by auto
next
  case (Cons c s)
  show ?case
  proof
    assume "contains pat (c # s)"
    then show "\<exists>a b. c # s = a @ pat @ b"
      using Cons.IH by (metis append_Cons append_Nil contains.simps(2) starts_with_iff)
  next
    assume "\<exists>a b. c # s = a @ pat @ b"
    then obtain a b where ab: "c # s = a @ pat @ b" by blast
    show "contains pat (c # s)"
    proof (cases a)
      case Nil
      with ab have "starts_with pat (c # s)" by (auto simp: starts_with_iff)
      then show ?thesis by simp
    next
      case (Cons x a')
      with ab Cons.IH have "contains pat s" by auto
      then show ?thesis by simp
    qed
  qed
qed

section \<open>Splitting\<close>

fun split_by :: "(uchar \<Rightarrow> bool) \<Rightarrow> rstr \<Rightarrow> rstr list" where
  "split_by p [] = [[]]"
| "split_by p (c # s) =
     (if p c then [] # split_by p s
      else (case split_by p s of [] \<Rightarrow> [[c]] | x # xs \<Rightarrow> (c # x) # xs))"

abbreviation split_char :: "uchar \<Rightarrow> rstr \<Rightarrow> rstr list" where
  "split_char c \<equiv> split_by (\<lambda>x. x = c)"

lemma split_by_append: "p c \<Longrightarrow> split_by p (s @ c # t) = split_by p s @ split_by p t"
proof (induction s)
  case (Cons a s)
  have "split_by p s \<noteq> []" by (induction s) (auto split: list.split)
  with Cons show ?case by (auto split: list.splits)
qed simp

definition split_whitespace :: "rstr \<Rightarrow> rstr list" where
  "split_whitespace s = filter (\<lambda>w. w \<noteq> []) (split_by is_whitespace s)"

fun split_once :: "uchar \<Rightarrow> rstr \<Rightarrow> (rstr \<times> rstr) option" where
  "split_once c [] = None"
| "split_once c (x # s) =
     (if x = c then Some ([], s)
      else (case split_once c s of None \<Rightarrow> None | Some (a, b) \<Rightarrow> Some (x # a, b)))"

text \<open>\<open>splitn(2, c)\<close>: the two parts its iterator yields, the second one optional.\<close>

definition splitn2 :: "uchar \<Rightarrow> rstr \<Rightarrow> rstr \<times> rstr option" where
  "splitn2 c s = (case split_once c s of None \<Rightarrow> (s, None) | Some (a, b) \<Rightarrow> (a, Some b))"

lemma split_by_ne [simp]: "split_by p s \<noteq> []"
  by (cases s) (auto split: list.splits)

lemma split_by_none: "\<forall>c \<in> set s. \<not> p c \<Longrightarrow> split_by p s = [s]"
  by (induction s) auto

lemma split_by_append_sep:
  "\<forall>c \<in> set a. \<not> p c \<Longrightarrow> p d \<Longrightarrow> split_by p (a @ d # s) = a # split_by p s"
  by (induction a) auto

lemma split_by_no_sep: "\<forall>w \<in> set (split_by p s). \<forall>c \<in> set w. \<not> p c"
  by (induction s) (auto split: list.splits)

lemma split_whitespace_word:
  "w \<in> set (split_whitespace s) \<Longrightarrow> w \<noteq> [] \<and> (\<forall>c \<in> set w. \<not> is_whitespace c)"
  using split_by_no_sep [of is_whitespace s] by (auto simp: split_whitespace_def)

lemma split_once_append:
  "c \<notin> set a \<Longrightarrow> split_once c (a @ c # b) = Some (a, b)"
  by (induction a) auto

lemma split_once_SomeD:
  "split_once c s = Some (a, b) \<Longrightarrow> s = a @ c # b \<and> c \<notin> set a"
  by (induction s arbitrary: a b) (auto split: if_splits option.splits)

lemma split_once_Some:
  "split_once c s = Some (a, b) \<longleftrightarrow> s = a @ c # b \<and> c \<notin> set a"
  using split_once_SomeD split_once_append by blast

section \<open>Trimming\<close>

definition trim_start_by :: "(uchar \<Rightarrow> bool) \<Rightarrow> rstr \<Rightarrow> rstr" where
  "trim_start_by p s = dropWhile p s"

definition trim_by :: "(uchar \<Rightarrow> bool) \<Rightarrow> rstr \<Rightarrow> rstr" where
  "trim_by p s = rev (dropWhile p (rev (trim_start_by p s)))"

abbreviation trim :: "rstr \<Rightarrow> rstr" where
  "trim \<equiv> trim_by is_whitespace"

abbreviation trim_matches :: "uchar \<Rightarrow> rstr \<Rightarrow> rstr" where
  "trim_matches c \<equiv> trim_by (\<lambda>x. x = c)"

text \<open>A string that neither starts nor ends with a character to trim.\<close>

definition tight :: "(uchar \<Rightarrow> bool) \<Rightarrow> rstr \<Rightarrow> bool" where
  "tight p s \<longleftrightarrow> s = [] \<or> (\<not> p (hd s) \<and> \<not> p (last s))"

lemma trim_by_tight:
  assumes "tight p s"
  shows "trim_by p s = s"
proof (cases "s = []")
  case True
  then show ?thesis by (simp add: trim_by_def trim_start_by_def)
next
  case False
  with assms have "dropWhile p s = s" "dropWhile p (rev s) = rev s"
    by (auto simp: tight_def hd_rev intro!: dropWhile_id)
  then show ?thesis by (simp add: trim_by_def trim_start_by_def)
qed

lemma trim_by_Nil [simp]: "trim_by p [] = []"
  by (simp add: trim_by_def trim_start_by_def)

section \<open>Decimal printing (\<open>to_string\<close> on an unsigned integer)\<close>

fun dec :: "nat \<Rightarrow> rstr" where
  "dec n = (if n < 10 then [48 + n] else dec (n div 10) @ [48 + n mod 10])"

declare dec.simps [simp del]

definition undec :: "rstr \<Rightarrow> nat" where
  "undec s = foldl (\<lambda>a c. 10 * a + (c - 48)) 0 s"

lemma undec_snoc: "undec (s @ [c]) = 10 * undec s + (c - 48)"
  by (simp add: undec_def)

lemma undec_dec [simp]: "undec (dec n) = n"
proof (induction n rule: dec.induct)
  case (1 n)
  show ?case
  proof (cases "n < 10")
    case True
    then show ?thesis by (simp add: dec.simps [of n] undec_def)
  next
    case False
    then have "undec (dec n) = 10 * undec (dec (n div 10)) + n mod 10"
      by (simp add: dec.simps [of n] undec_snoc)
    with "1.IH" False show ?thesis by simp
  qed
qed

lemma dec_inject [simp]: "dec m = dec n \<longleftrightarrow> m = n"
  by (metis undec_dec)

lemma dec_digits: "\<forall>c \<in> set (dec n). 48 \<le> c \<and> c \<le> 57"
proof (induction n rule: dec.induct)
  case (1 n)
  then show ?case by (subst dec.simps) auto
qed

lemmas lit_eval = lit_def ascii_lower_def ascii_upper_def to_ascii_lowercase_def
  eq_ignore_ascii_case_def to_uppercase_def starts_with_def is_whitespace_def

end
