(* ===== verification/Config.thy ===== *)
theory Config
  imports Rust_Str
begin

text \<open>
  Model of \<open>src/config.rs\<close>: the configuration data and where it is read from. The YAML and
  environment deserialisers are library code: they are the parameters \<open>yaml_from_str\<close> and
  \<open>envious_build\<close>, and \<open>env_var\<close> is the process environment. An \<open>anyhow\<close> error is the chain
  of its messages, the outermost context first.
\<close>

section \<open>Errors with context\<close>

type_synonym anyhow = "rstr list"

definition context_msg :: "rstr \<Rightarrow> anyhow + 'a \<Rightarrow> anyhow + 'a" where
  "context_msg msg r = (case r of Inl chain \<Rightarrow> Inl (msg # chain) | Inr v \<Rightarrow> Inr v)"

lemma context_msg_simps [simp]:
  "context_msg msg (Inl c) = Inl (msg # c)" "context_msg msg (Inr v) = Inr v"
  by (simp_all add: context_msg_def)

lemma context_msg_eq_Inr [simp]: "context_msg msg r = Inr v \<longleftrightarrow> r = Inr v"
  by (cases r) auto

section \<open>Configuration data\<close>

type_synonym byte_size = u64

record auth_config =
  public_key :: rstr
  private_key :: rstr
  cfg_bearer_token :: "rstr option"

record cache_policy =
  max_memory :: byte_size
  max_object_size :: byte_size
  max_disk :: byte_size
  disk_path :: "rstr option"

record sentry_config =
  dsn :: rstr
  environment :: "rstr option"
  traces_sample_rate :: "f32 option"
  debug :: "bool option"

text \<open>The fields of \<open>StoreConfig::S3\<close> and \<open>StoreConfig::Azure\<close>, in the source's order.\<close>

datatype store_config =
    S3 (s3_bucket: rstr) (s3_region: rstr) (s3_access_key: rstr) (s3_secret_key: rstr)
       (s3_endpoint: "rstr option") (s3_allow_http: "bool option")
  | Azure (az_container: rstr) (az_connection_string: rstr)

text \<open>
  \<open>HashMap<String, StoreConfig>\<close>: the list is the order in which the map's iterator yields its
  entries, which the code does not choose; its keys are distinct.
\<close>

record config =
  listen :: rstr
  cfg_stores :: "(rstr \<times> store_config) list"
  cfg_auth :: auth_config
  cfg_cache :: cache_policy
  cfg_sentry :: "sentry_config option"

section \<open>Reading it from the environment\<close>

definition load_from_env ::
    "(rstr \<Rightarrow> rstr option) \<Rightarrow> (rstr \<Rightarrow> anyhow + config) \<Rightarrow> (rstr \<Rightarrow> anyhow + config)
      \<Rightarrow> anyhow + config" where
  "load_from_env env_var yaml_from_str envious_build =
     (case env_var (lit ''CACHEGATE_CONFIG'') of
        Some config_str \<Rightarrow>
          context_msg (lit ''failed to parse config from CACHEGATE_CONFIG'')
            (yaml_from_str config_str)
      | None \<Rightarrow>
          context_msg (lit ''failed to parse config from environment variables'')
            (envious_build (lit ''CACHEGATE__'')))"

lemma load_from_env_set:
  "env_var (lit ''CACHEGATE_CONFIG'') = Some s \<Longrightarrow>
     load_from_env env_var y e = Inr c \<longleftrightarrow> y s = Inr c"
  by (simp add: load_from_env_def)

lemma load_from_env_unset:
  "env_var (lit ''CACHEGATE_CONFIG'') = None \<Longrightarrow>
     load_from_env env_var y e = Inr c \<longleftrightarrow> e (lit ''CACHEGATE__'') = Inr c"
  by (simp add: load_from_env_def)

end
