(* ===== verification/Auth.thy ===== *)
theory Auth
  imports Config
begin

text \<open>
  Model of \<open>src/auth.rs\<close>: the errors, the presigned payload, \<open>AuthState\<close> and its three
  operations \<open>from_config\<close>, \<open>verify\<close> and \<open>verify_bearer\<close>. Base64, the JSON parser and Ed25519
  are library code and are the fields of \<open>auth_libs\<close>; the clock is the argument \<open>now\<close>.
\<close>

section \<open>Data\<close>

datatype auth_error =
    MalformedSignature | MalformedPayload | InvalidSignature | UnsupportedVersion | Expired
  | MethodMismatch | BucketMismatch | PathMismatch | InvalidKeyMaterial | KeyMismatch
  | MissingAuth | InvalidBearer | BearerNotConfigured

primrec auth_error_message :: "auth_error \<Rightarrow> rstr" where
  "auth_error_message MalformedSignature = lit ''malformed signature''"
| "auth_error_message MalformedPayload = lit ''malformed payload''"
| "auth_error_message InvalidSignature = lit ''invalid signature''"
| "auth_error_message UnsupportedVersion = lit ''unsupported version''"
| "auth_error_message Expired = lit ''expired signature''"
| "auth_error_message MethodMismatch = lit ''method mismatch''"
| "auth_error_message BucketMismatch = lit ''bucket mismatch''"
| "auth_error_message PathMismatch = lit ''path mismatch''"
| "auth_error_message InvalidKeyMaterial = lit ''invalid key material''"
| "auth_error_message KeyMismatch = lit ''public and private keys do not match''"
| "auth_error_message MissingAuth = lit ''missing auth''"
| "auth_error_message InvalidBearer = lit ''invalid bearer token''"
| "auth_error_message BearerNotConfigured = lit ''bearer token not configured''"

record presign_payload =
  pl_version :: u8
  pl_expiry :: int
  pl_method :: rstr
  pl_bucket_id :: rstr
  pl_path :: rstr

record 'vk auth_state =
  verifying_key :: 'vk
  bearer_token :: "rstr option"

datatype auth_method = Bearer | Presign

primrec auth_method_as_str :: "auth_method \<Rightarrow> rstr" where
  "auth_method_as_str Bearer = lit ''bearer''"
| "auth_method_as_str Presign = lit ''presign''"

record auth_context =
  ac_method :: auth_method

text \<open>
  The library calls: \<open>URL_SAFE_NO_PAD.decode\<close>, \<open>serde_json::from_slice\<close>,
  \<open>VerifyingKey::from_bytes\<close>, \<open>SigningKey::from_bytes(_).verifying_key()\<close>,
  \<open>VerifyingKey::verify_strict\<close> (true for \<open>Ok\<close>), and Unicode uppercase beyond ASCII.
\<close>

record 'vk auth_libs =
  b64url_decode :: "rstr \<Rightarrow> bytes option"
  payload_from_slice :: "bytes \<Rightarrow> presign_payload option"
  verifying_key_from_bytes :: "bytes \<Rightarrow> 'vk option"
  signing_key_public :: "bytes \<Rightarrow> 'vk"
  verify_strict :: "'vk \<Rightarrow> bytes \<Rightarrow> bytes \<Rightarrow> bool"
  uppercase_of :: "uchar \<Rightarrow> rstr"

section \<open>Operations\<close>

definition decode_key :: "'vk auth_libs \<Rightarrow> rstr \<Rightarrow> auth_error + bytes" where
  "decode_key x input = ok_or InvalidKeyMaterial (b64url_decode x input)"

text \<open>\<open>Vec<u8>::try_into::<[u8; n]>\<close>, its error mapped to \<open>e\<close>.\<close>

definition try_into_array :: "nat \<Rightarrow> auth_error \<Rightarrow> bytes \<Rightarrow> auth_error + bytes" where
  "try_into_array n e bs = (if length bs = n then Inr bs else Inl e)"

definition from_config :: "'vk auth_libs \<Rightarrow> auth_config \<Rightarrow> auth_error + 'vk auth_state" where
  "from_config x config =
     and_then (decode_key x (public_key config)) (\<lambda>public_bytes.
     and_then (decode_key x (private_key config)) (\<lambda>private_bytes.
     and_then (try_into_array 32 InvalidKeyMaterial public_bytes) (\<lambda>public_array.
     and_then (ok_or InvalidKeyMaterial (verifying_key_from_bytes x public_array)) (\<lambda>public_key.
     and_then (try_into_array 32 InvalidKeyMaterial private_bytes) (\<lambda>private_array.
       let derived = signing_key_public x private_array
       in if derived \<noteq> public_key then Inl KeyMismatch
          else Inr \<lparr>verifying_key = public_key, bearer_token = cfg_bearer_token config\<rparr>)))))"

definition verify ::
    "'vk auth_libs \<Rightarrow> 'vk auth_state \<Rightarrow> int \<Rightarrow> rstr \<Rightarrow> rstr \<Rightarrow> rstr \<Rightarrow> rstr \<Rightarrow> auth_error + unit" where
  "verify x st now method bucket_id path sig =
     and_then (ok_or MalformedSignature (split_once 46 sig)) (\<lambda>(payload_b64, signature_b64).
     and_then (ok_or MalformedPayload (b64url_decode x payload_b64)) (\<lambda>payload_bytes.
     and_then (ok_or MalformedPayload (payload_from_slice x payload_bytes)) (\<lambda>payload.
       if pl_version payload \<noteq> 1 then Inl UnsupportedVersion
       else if pl_expiry payload < now then Inl Expired
       else if to_uppercase (uppercase_of x) (pl_method payload)
                 \<noteq> to_uppercase (uppercase_of x) method then Inl MethodMismatch
       else if pl_bucket_id payload \<noteq> bucket_id then Inl BucketMismatch
       else if pl_path payload \<noteq> path then Inl PathMismatch
       else
         and_then (ok_or MalformedSignature (b64url_decode x signature_b64)) (\<lambda>signature_bytes.
         and_then (try_into_array 64 MalformedSignature signature_bytes) (\<lambda>signature.
           if verify_strict x (verifying_key st) payload_bytes signature then Inr ()
           else Inl InvalidSignature)))))"

definition verify_bearer :: "'vk auth_state \<Rightarrow> rstr \<Rightarrow> auth_error + unit" where
  "verify_bearer st token =
     and_then (ok_or BearerNotConfigured (bearer_token st)) (\<lambda>expected.
       if token = expected then Inr () else Inl InvalidBearer)"

section \<open>What they promise\<close>

text \<open>
  A link: payload text, dot, signature text, decoded; \<open>link_parts\<close> holds when \<open>sig\<close> decodes
  to these three. It is the declarative reading of the parser half of \<open>verify\<close>.
\<close>

definition link_parts ::
    "'vk auth_libs \<Rightarrow> rstr \<Rightarrow> bytes \<Rightarrow> presign_payload \<Rightarrow> bytes \<Rightarrow> bool" where
  "link_parts x sig payload_bytes payload signature \<longleftrightarrow>
     (\<exists>p s. sig = p @ 46 # s \<and> 46 \<notin> set p \<and> b64url_decode x p = Some payload_bytes
        \<and> payload_from_slice x payload_bytes = Some payload
        \<and> b64url_decode x s = Some signature \<and> length signature = 64)"

text \<open>The scope a payload grants at time \<open>now\<close>.\<close>

definition payload_grants ::
    "'vk auth_libs \<Rightarrow> presign_payload \<Rightarrow> int \<Rightarrow> rstr \<Rightarrow> rstr \<Rightarrow> rstr \<Rightarrow> bool" where
  "payload_grants x payload now method bucket_id path \<longleftrightarrow>
     pl_version payload = 1 \<and> now \<le> pl_expiry payload
     \<and> to_uppercase (uppercase_of x) (pl_method payload) = to_uppercase (uppercase_of x) method
     \<and> pl_bucket_id payload = bucket_id \<and> pl_path payload = path"

lemma try_into_array_eq_Inr [simp]: "try_into_array n e bs = Inr v \<longleftrightarrow> length bs = n \<and> v = bs"
  by (auto simp: try_into_array_def)

lemma try_into_array_eq_Inl [simp]: "try_into_array n e bs = Inl f \<longleftrightarrow> length bs \<noteq> n \<and> f = e"
  by (auto simp: try_into_array_def)

lemma link_parts_alt:
  "link_parts x sig pb p s \<longleftrightarrow>
     (\<exists>a b. split_once 46 sig = Some (a, b) \<and> b64url_decode x a = Some pb
        \<and> payload_from_slice x pb = Some p \<and> b64url_decode x b = Some s \<and> length s = 64)"
  unfolding link_parts_def by (metis split_once_Some)

lemma link_parts_unique:
  "link_parts x sig pb p s \<Longrightarrow> link_parts x sig pb' p' s' \<Longrightarrow> pb' = pb \<and> p' = p \<and> s' = s"
  by (auto simp: link_parts_alt)

lemma verify_iff:
  "verify x st now method bucket_id path sig = Inr () \<longleftrightarrow>
     (\<exists>pb p s. link_parts x sig pb p s \<and> payload_grants x p now method bucket_id path
        \<and> verify_strict x (verifying_key st) pb s)"
proof (cases "split_once 46 sig")
  case None
  then show ?thesis by (simp add: verify_def link_parts_alt)
next
  case (Some ab)
  obtain a b where ab: "ab = (a, b)" by (cases ab)
  show ?thesis
    by (cases "b64url_decode x a"; cases "b64url_decode x b")
       (auto simp: verify_def link_parts_alt payload_grants_def Some ab not_less
         split: if_splits)
qed

end
