(* ===== verification/Cache.thy ===== *)
theory Cache
  imports Config
begin

text \<open>
  Model of \<open>src/cache/mod.rs\<close> (keys, entries and the trait \<open>CacheBackend\<close>) and of
  \<open>src/cache/foyer.rs\<close> (its one implementation, on Foyer's hybrid cache). The trait is the
  locale \<open>cache_backend\<close>; Foyer itself is library code and is the parameter \<open>hybrid_ops\<close>, of which
  \<open>hybrid_lawful\<close> states what a cache with eviction promises: a lookup finds nothing, or what the
  last insertion under that very key stored.
\<close>

section \<open>Keys and entries\<close>

record cache_key =
  ck_bucket_id :: rstr
  ck_path :: rstr

record cache_entry =
  ce_bytes :: bytes
  ce_content_type :: "rstr option"

record cache_stats =
  cs_inserts :: u64

definition cache_key_new :: "rstr \<Rightarrow> rstr \<Rightarrow> cache_key" where
  "cache_key_new bucket_id path = \<lparr>ck_bucket_id = bucket_id, ck_path = path\<rparr>"

definition cache_entry_new :: "bytes \<Rightarrow> rstr option \<Rightarrow> cache_entry" where
  "cache_entry_new bs content_type = \<lparr>ce_bytes = bs, ce_content_type = content_type\<rparr>"

text \<open>\<open>PartialEq::eq\<close>, and what \<open>Hash::hash\<close> feeds to the hasher, in order.\<close>

definition cache_key_eq :: "cache_key \<Rightarrow> cache_key \<Rightarrow> bool" where
  "cache_key_eq a b \<longleftrightarrow> ck_bucket_id a = ck_bucket_id b \<and> ck_path a = ck_path b"

definition cache_key_hash :: "cache_key \<Rightarrow> rstr list" where
  "cache_key_hash k = [ck_bucket_id k, ck_path k]"

lemma cache_key_new_sel [simp]:
  "ck_bucket_id (cache_key_new b p) = b" "ck_path (cache_key_new b p) = p"
  by (simp_all add: cache_key_new_def)

lemma cache_key_new_inject [simp]:
  "cache_key_new b p = cache_key_new b' p' \<longleftrightarrow> b = b' \<and> p = p'"
  by (auto simp: cache_key_new_def)

lemma cache_entry_new_sel [simp]:
  "ce_bytes (cache_entry_new bs ct) = bs" "ce_content_type (cache_entry_new bs ct) = ct"
  by (simp_all add: cache_entry_new_def)

section \<open>The interface: \<open>CacheBackend\<close>\<close>

text \<open>
  \<open>resident c k e\<close> says that the backend may still answer \<open>e\<close> for \<open>k\<close>. A lookup answers only
  resident entries and makes none; a \<open>put\<close> replaces what its key had and adds nothing elsewhere.
  Nothing promises that an entry stays: a cache may evict at any time.
\<close>

datatype cache_call = GetCall cache_key | PutCall cache_key bytes "rstr option"

locale cache_backend =
  fixes get :: "cache_key \<Rightarrow> 'c \<Rightarrow> cache_entry option \<times> 'c"
    and put :: "cache_key \<Rightarrow> bytes \<Rightarrow> rstr option \<Rightarrow> 'c \<Rightarrow> 'c"
    and resident :: "'c \<Rightarrow> cache_key \<Rightarrow> cache_entry \<Rightarrow> bool"
    and lawful :: bool
  assumes get_resident: "lawful \<Longrightarrow> get k c = (Some e, c') \<Longrightarrow> resident c k e"
    and get_frame: "lawful \<Longrightarrow> get k c = (r, c') \<Longrightarrow> resident c' j e \<Longrightarrow> resident c j e"
    and put_resident: "lawful \<Longrightarrow> resident (put k bs ct c) j e \<Longrightarrow>
      (if j = k then e = cache_entry_new bs ct else resident c j e)"
begin

primrec call_state :: "cache_call \<Rightarrow> 'c \<Rightarrow> 'c" where
  "call_state (GetCall k) c = snd (get k c)"
| "call_state (PutCall k bs ct) c = put k bs ct c"

primrec last_put :: "cache_key \<Rightarrow> cache_call \<Rightarrow> cache_entry option \<Rightarrow> cache_entry option" where
  "last_put j (GetCall k) prev = prev"
| "last_put j (PutCall k bs ct) prev = (if j = k then Some (cache_entry_new bs ct) else prev)"

lemma resident_calls:
  assumes "lawful"
  shows "resident (fold call_state cs c) j e \<Longrightarrow>
    fold (last_put j) cs None = Some e \<or> (fold (last_put j) cs None = None \<and> resident c j e)"
proof (induction cs rule: rev_induct)
  case Nil
  then show ?case by simp
next
  case (snoc a cs)
  show ?case
  proof (cases a)
    case (GetCall k)
    have "resident (fold call_state cs c) j e"
      using snoc.prems GetCall get_frame [OF assms, of k "fold call_state cs c"]
      by (cases "get k (fold call_state cs c)") auto
    with snoc.IH GetCall show ?thesis by simp
  next
    case (PutCall k bs ct)
    with snoc.prems have "if j = k then e = cache_entry_new bs ct
        else resident (fold call_state cs c) j e"
      by (auto dest: put_resident [OF assms])
    with snoc.IH PutCall show ?thesis by (auto split: if_splits)
  qed
qed

text \<open>Whatever calls came before, a hit after a put of the key is that put's entry.\<close>

lemma get_after_put:
  assumes "lawful" and "fst (get k (fold call_state cs (put k bs ct c))) = Some e"
    and "\<forall>a \<in> set cs. \<forall>bs' ct'. a \<noteq> PutCall k bs' ct'"
  shows "e = cache_entry_new bs ct"
proof -
  obtain c' where "get k (fold call_state cs (put k bs ct c)) = (Some e, c')"
    using assms(2) by (cases "get k (fold call_state cs (put k bs ct c))") auto
  with assms(1) have r: "resident (fold call_state cs (put k bs ct c)) k e"
    by (rule get_resident)
  have "fold (last_put k) cs None = None"
    using assms(3)
  proof (induction cs rule: rev_induct)
    case (snoc a cs)
    then show ?case by (cases a) auto
  qed simp
  with resident_calls [OF assms(1) r] have "resident (put k bs ct c) k e" by simp
  then show ?thesis using put_resident [OF assms(1)] by fastforce
qed

end

text \<open>
  With the trait's third method, \<open>stats\<close>: it counts the puts, and nothing else moves it.
\<close>

definition is_put :: "cache_call \<Rightarrow> bool" where
  "is_put call \<longleftrightarrow> (case call of PutCall k bs ct \<Rightarrow> True | GetCall k \<Rightarrow> False)"

locale counted_backend = cache_backend get put resident lawful
  for get :: "cache_key \<Rightarrow> 'c \<Rightarrow> cache_entry option \<times> 'c"
    and put :: "cache_key \<Rightarrow> bytes \<Rightarrow> rstr option \<Rightarrow> 'c \<Rightarrow> 'c"
    and resident :: "'c \<Rightarrow> cache_key \<Rightarrow> cache_entry \<Rightarrow> bool"
    and lawful :: bool +
  fixes stats :: "'c \<Rightarrow> cache_stats"
  assumes stats_get: "stats (snd (get k c)) = stats c"
    and stats_put: "cs_inserts (stats (put k bs ct c)) = cs_inserts (stats c) + 1"
begin

lemma stats_calls:
  "cs_inserts (stats (fold call_state cs c)) = cs_inserts (stats c) + of_nat (length (filter is_put cs))"
proof (induction cs arbitrary: c)
  case (Cons call cs)
  then show ?case by (cases call) (simp_all add: is_put_def stats_get stats_put)
qed simp

end

section \<open>Foyer's hybrid cache\<close>

text \<open>
  The two calls the code makes: \<open>HybridCache::get\<close>, which may fail (disk I/O), miss or hit, and
  \<open>HybridCache::insert\<close>. Both may change the cache (promotion, eviction).
\<close>

record 'h hybrid_ops =
  hc_get :: "cache_key \<Rightarrow> 'h \<Rightarrow> (rstr + cache_entry option) \<times> 'h"
  hc_insert :: "cache_key \<Rightarrow> cache_entry \<Rightarrow> 'h \<Rightarrow> 'h"

definition hybrid_lawful ::
    "'h hybrid_ops \<Rightarrow> ('h \<Rightarrow> cache_key \<Rightarrow> cache_entry \<Rightarrow> bool) \<Rightarrow> bool" where
  "hybrid_lawful ops res \<longleftrightarrow>
     (\<forall>k h e h'. hc_get ops k h = (Inr (Some e), h') \<longrightarrow> res h k e)
   \<and> (\<forall>k h r h' j e. hc_get ops k h = (r, h') \<longrightarrow> res h' j e \<longrightarrow> res h j e)
   \<and> (\<forall>k v h j e. res (hc_insert ops k v h) j e \<longrightarrow> (if j = k then e = v else res h j e))"

lemma hybrid_lawfulD:
  assumes "hybrid_lawful ops res"
  shows "hc_get ops k h = (Inr (Some e), h') \<Longrightarrow> res h k e"
    and "hc_get ops k h = (r, h') \<Longrightarrow> res h' j e \<Longrightarrow> res h j e"
    and "res (hc_insert ops k v h) j e \<Longrightarrow> if j = k then e = v else res h j e"
  using assms unfolding hybrid_lawful_def by blast+

section \<open>\<open>FoyerCache\<close>\<close>

record 'h foyer_cache =
  fc_cache :: 'h
  fc_inserts :: u64

definition foyer_get ::
    "'h hybrid_ops \<Rightarrow> cache_key \<Rightarrow> 'h foyer_cache \<Rightarrow> cache_entry option \<times> 'h foyer_cache" where
  "foyer_get ops key c =
     (case hc_get ops key (fc_cache c) of
        (Inr (Some entry), h) \<Rightarrow> (Some entry, c\<lparr>fc_cache := h\<rparr>)
      | (Inr None, h) \<Rightarrow> (None, c\<lparr>fc_cache := h\<rparr>)
      | (Inl e, h) \<Rightarrow> (None, c\<lparr>fc_cache := h\<rparr>))"

definition foyer_put ::
    "'h hybrid_ops \<Rightarrow> cache_key \<Rightarrow> bytes \<Rightarrow> rstr option \<Rightarrow> 'h foyer_cache \<Rightarrow> 'h foyer_cache" where
  "foyer_put ops key bs content_type c =
     (let entry = cache_entry_new bs content_type
      in c\<lparr>fc_cache := hc_insert ops key entry (fc_cache c), fc_inserts := fc_inserts c + 1\<rparr>)"

definition foyer_stats :: "'h foyer_cache \<Rightarrow> cache_stats" where
  "foyer_stats c = \<lparr>cs_inserts = fc_inserts c\<rparr>"

definition foyer_resident ::
    "('h \<Rightarrow> cache_key \<Rightarrow> cache_entry \<Rightarrow> bool) \<Rightarrow> 'h foyer_cache \<Rightarrow> cache_key \<Rightarrow> cache_entry \<Rightarrow> bool" where
  "foyer_resident res c k e = res (fc_cache c) k e"

text \<open>\<open>FoyerCache::new\<close>: the builders are library and file-system calls.\<close>

record ('h, 'd) foyer_builders =
  build_memory_only :: "u64 \<Rightarrow> anyhow + 'h"
  create_dir_all :: "rstr \<Rightarrow> anyhow + unit"
  build_device :: "rstr \<Rightarrow> u64 \<Rightarrow> anyhow + 'd"
  build_with_disk :: "u64 \<Rightarrow> 'd \<Rightarrow> anyhow + 'h"

definition foyer_new ::
    "('h, 'd) foyer_builders \<Rightarrow> cache_policy \<Rightarrow> anyhow + 'h foyer_cache" where
  "foyer_new b policy =
     (let max_bytes_memory = max_memory policy; disk_capacity = max_disk policy in
      if max_bytes_memory = 0 then Inl [lit ''Bad policy: 0 max_bytes_memory'']
      else
        and_then
          (if disk_capacity = 0
           then context_msg (lit ''Failed to initialise cache'')
                  (build_memory_only b max_bytes_memory)
           else
             (let path = (case disk_path policy of Some p \<Rightarrow> p | None \<Rightarrow> lit ''/tmp/cachegate_cache'') in
              and_then (context_msg (lit ''failed to create disk cache directory'')
                (create_dir_all b path)) (\<lambda>_.
              and_then (context_msg (lit ''failed to build disk cache device'')
                (build_device b path disk_capacity)) (\<lambda>device.
              context_msg (lit ''Failed to initialise cache'')
                (build_with_disk b max_bytes_memory device)))))
          (\<lambda>cache. Inr \<lparr>fc_cache = cache, fc_inserts = 0\<rparr>))"

section \<open>\<open>FoyerCache\<close> implements \<open>CacheBackend\<close>\<close>

lemma foyer_get_cache:
  "fc_cache (snd (foyer_get ops k c)) = snd (hc_get ops k (fc_cache c))"
  by (auto simp: foyer_get_def split: prod.splits sum.splits option.splits)

lemma foyer_get_Some:
  "fst (foyer_get ops k c) = Some e \<longleftrightarrow> fst (hc_get ops k (fc_cache c)) = Inr (Some e)"
  by (auto simp: foyer_get_def split: prod.splits sum.splits option.splits)

interpretation foyer: counted_backend "foyer_get ops" "foyer_put ops" "foyer_resident res"
    "hybrid_lawful ops res" foyer_stats for ops :: "'h hybrid_ops" and res
proof unfold_locales
  fix k c e c'
  assume "hybrid_lawful ops res" "foyer_get ops k c = (Some e, c')"
  then show "foyer_resident res c k e"
    using foyer_get_Some [of ops k c e]
    by (cases "hc_get ops k (fc_cache c)") (auto simp: foyer_resident_def dest: hybrid_lawfulD)
next
  fix k c r c' j e
  assume "hybrid_lawful ops res" "foyer_get ops k c = (r, c')" "foyer_resident res c' j e"
  then show "foyer_resident res c j e"
    using foyer_get_cache [of ops k c]
    by (cases "hc_get ops k (fc_cache c)") (auto simp: foyer_resident_def dest: hybrid_lawfulD)
next
  fix k bs ct c j e
  assume "hybrid_lawful ops res" "foyer_resident res (foyer_put ops k bs ct c) j e"
  then show "if j = k then e = cache_entry_new bs ct else foyer_resident res c j e"
    by (auto simp: foyer_resident_def foyer_put_def Let_def dest: hybrid_lawfulD(3))
next
  fix k c
  show "foyer_stats (snd (foyer_get ops k c)) = foyer_stats c"
    by (auto simp: foyer_stats_def foyer_get_def split: prod.splits sum.splits option.splits)
qed (simp add: foyer_stats_def foyer_put_def)

end
