(* ===== verification/Inflight.thy ===== *)
theory Inflight
  imports Cache
begin

text \<open>
  Model of \<open>src/inflight.rs\<close>, the table of requests in flight that lets one leader fetch an
  object while followers wait. An \<open>Arc<InflightEntry>\<close> is an address into a heap of entries, so
  \<open>Arc::ptr_eq\<close> is equality of addresses. Every operation below is the body of one critical
  section of the Rust code (the mutexes make it atomic).
\<close>

section \<open>\<open>tokio::sync::Notify\<close>\<close>

type_synonym tid = nat

text \<open>
  The documented contract of the part the code uses: \<open>notified()\<close> registers a waiter,
  \<open>notify_waiters()\<close> wakes the waiters registered at that moment and keeps no permit for later
  ones.
\<close>

datatype notify_call = Register tid | NotifyAll

locale notify_contract =
  fixes fresh :: 'n
    and register :: "tid \<Rightarrow> 'n \<Rightarrow> 'n"
    and notify_all :: "'n \<Rightarrow> 'n"
    and registered :: "tid \<Rightarrow> 'n \<Rightarrow> bool"
    and woken :: "tid \<Rightarrow> 'n \<Rightarrow> bool"
  assumes fresh: "\<not> registered t fresh" "\<not> woken t fresh"
    and register: "registered t (register u n) \<longleftrightarrow> t = u \<or> registered t n"
      "woken t (register u n) \<longleftrightarrow> woken t n"
    and notify_all: "\<not> registered t (notify_all n)"
      "woken t (notify_all n) \<longleftrightarrow> woken t n \<or> registered t n"
begin

primrec notify_step :: "notify_call \<Rightarrow> 'n \<Rightarrow> 'n" where
  "notify_step (Register u) n = register u n"
| "notify_step NotifyAll n = notify_all n"

lemma woken_mono: "woken t n \<Longrightarrow> woken t (fold notify_step cs n)"
proof (induction cs arbitrary: n)
  case (Cons c cs)
  then show ?case by (cases c) (auto simp: register notify_all)
qed simp

text \<open>
  A waiter is woken exactly if a notification comes after its registration; one that registers
  after the last notification is not.
\<close>

lemma woken_iff:
  "woken t (fold notify_step cs n) \<longleftrightarrow>
     woken t n \<or> (registered t n \<and> NotifyAll \<in> set cs)
       \<or> (\<exists>as bs. cs = as @ Register t # bs \<and> NotifyAll \<in> set bs)"
proof (induction cs arbitrary: n)
  case Nil
  then show ?case by simp
next
  case (Cons c cs)
  show ?case
  proof (cases c)
    case (Register u)
    have "(\<exists>as bs. Register u # cs = as @ Register t # bs \<and> NotifyAll \<in> set bs) \<longleftrightarrow>
        (u = t \<and> NotifyAll \<in> set cs) \<or> (\<exists>as bs. cs = as @ Register t # bs \<and> NotifyAll \<in> set bs)"
      by (auto simp: Cons_eq_append_conv)
    with Register show ?thesis by (auto simp: Cons.IH register)
  next
    case NotifyAll
    have "(\<exists>as bs. NotifyAll # cs = as @ Register t # bs \<and> NotifyAll \<in> set bs) \<longleftrightarrow>
        (\<exists>as bs. cs = as @ Register t # bs \<and> NotifyAll \<in> set bs)"
      by (auto simp: Cons_eq_append_conv)
    with NotifyAll show ?thesis by (auto simp: Cons.IH notify_all)
  qed
qed

lemma registered_late_not_woken:
  assumes "\<not> woken t n" "\<not> registered t n" "Register t \<notin> set cs" "NotifyAll \<notin> set ds"
  shows "\<not> woken t (fold notify_step (cs @ Register t # ds) n)"
proof -
  have "\<not> woken t (fold notify_step cs n)"
    unfolding woken_iff using assms(1-3) by auto
  then have "\<not> woken t (fold notify_step ds (register t (fold notify_step cs n)))"
    unfolding woken_iff [of t ds] using assms(4) by (auto simp: register)
  then show ?thesis by simp
qed

end

record notify =
  nf_registered :: "tid list"
  nf_woken :: "tid list"

definition notify_new :: notify where
  "notify_new = \<lparr>nf_registered = [], nf_woken = []\<rparr>"

definition notified :: "tid \<Rightarrow> notify \<Rightarrow> notify" where
  "notified t n = n\<lparr>nf_registered := t # nf_registered n\<rparr>"

definition notify_waiters :: "notify \<Rightarrow> notify" where
  "notify_waiters n = \<lparr>nf_registered = [], nf_woken = nf_registered n @ nf_woken n\<rparr>"

definition is_registered :: "tid \<Rightarrow> notify \<Rightarrow> bool" where
  "is_registered t n \<longleftrightarrow> t \<in> set (nf_registered n)"

definition is_woken :: "tid \<Rightarrow> notify \<Rightarrow> bool" where
  "is_woken t n \<longleftrightarrow> t \<in> set (nf_woken n)"

lemmas notify_defs =
  notify_new_def notified_def notify_waiters_def is_registered_def is_woken_def

interpretation nf: notify_contract notify_new notified notify_waiters is_registered is_woken
  by unfold_locales (auto simp: notify_defs)

section \<open>Entries, guards and permits\<close>

type_synonym eid = nat

record 'r inflight_entry =
  ie_notify :: notify
  ie_result :: "'r option"

record inflight_guard =
  ig_key :: cache_key
  ig_entry :: eid
  ig_released :: bool

datatype permit = Leader inflight_guard | Follower eid

text \<open>
  \<open>inner\<close> is the map under the mutex. The heap holds every entry an \<open>Arc\<close> was made for;
  addresses are handed out in order.
\<close>

record 'r inflight =
  inner :: "cache_key \<Rightarrow> eid option"
  heap :: "eid \<Rightarrow> 'r inflight_entry option"
  next_eid :: eid

definition inflight_new :: "'r inflight" where
  "inflight_new = \<lparr>inner = (\<lambda>_. None), heap = (\<lambda>_. None), next_eid = 0\<rparr>"

definition entry_new :: "'r inflight_entry" where
  "entry_new = \<lparr>ie_notify = notify_new, ie_result = None\<rparr>"

section \<open>Operations\<close>

definition acquire :: "cache_key \<Rightarrow> 'r inflight \<Rightarrow> permit \<times> 'r inflight" where
  "acquire key s =
     (case inner s key of
        Some existing \<Rightarrow> (Follower existing, s)
      | None \<Rightarrow>
          let entry = next_eid s
          in (Leader \<lparr>ig_key = key, ig_entry = entry, ig_released = False\<rparr>,
              s\<lparr>inner := (inner s)(key \<mapsto> entry), heap := (heap s)(entry \<mapsto> entry_new),
                next_eid := Suc entry\<rparr>))"

definition update_entry ::
    "eid \<Rightarrow> ('r inflight_entry \<Rightarrow> 'r inflight_entry) \<Rightarrow> 'r inflight \<Rightarrow> 'r inflight" where
  "update_entry e f s = s\<lparr>heap := (heap s)(e := map_option f (heap s e))\<rparr>"

definition release :: "cache_key \<Rightarrow> eid \<Rightarrow> 'r inflight \<Rightarrow> 'r inflight" where
  "release key entry s =
     (case inner s key of
        Some current \<Rightarrow>
          if current = entry
          then update_entry entry (\<lambda>en. en\<lparr>ie_notify := notify_waiters (ie_notify en)\<rparr>)
                 (s\<lparr>inner := (inner s)(key := None)\<rparr>)
          else s
      | None \<Rightarrow> s)"

text \<open>The first critical section of \<open>InflightGuard::complete\<close>: store the result.\<close>

definition set_result :: "eid \<Rightarrow> 'r \<Rightarrow> 'r inflight \<Rightarrow> 'r inflight" where
  "set_result entry result s = update_entry entry (\<lambda>en. en\<lparr>ie_result := Some result\<rparr>) s"

text \<open>\<open>Drop for InflightGuard\<close>: what the spawned task will release, if anything.\<close>

definition guard_drop :: "inflight_guard \<Rightarrow> (cache_key \<times> eid) option" where
  "guard_drop g = (if ig_released g then None else Some (ig_key g, ig_entry g))"

text \<open>The parts of \<open>InflightEntry::wait\<close>: create the \<open>Notified\<close>, be woken, read the result.\<close>

definition entry_notified :: "tid \<Rightarrow> eid \<Rightarrow> 'r inflight \<Rightarrow> 'r inflight" where
  "entry_notified t e s = update_entry e (\<lambda>en. en\<lparr>ie_notify := notified t (ie_notify en)\<rparr>) s"

definition entry_woken :: "tid \<Rightarrow> eid \<Rightarrow> 'r inflight \<Rightarrow> bool" where
  "entry_woken t e s = (case heap s e of None \<Rightarrow> False | Some en \<Rightarrow> is_woken t (ie_notify en))"

definition entry_registered :: "tid \<Rightarrow> eid \<Rightarrow> 'r inflight \<Rightarrow> bool" where
  "entry_registered t e s =
     (case heap s e of None \<Rightarrow> False | Some en \<Rightarrow> is_registered t (ie_notify en))"

definition entry_result :: "eid \<Rightarrow> 'r inflight \<Rightarrow> 'r option" where
  "entry_result e s = (case heap s e of None \<Rightarrow> None | Some en \<Rightarrow> ie_result en)"

lemma update_entry_sel [simp]:
  "inner (update_entry e f s) = inner s" "next_eid (update_entry e f s) = next_eid s"
  by (simp_all add: update_entry_def)

lemma heap_update_entry: "heap (update_entry e f s) d = (if d = e then map_option f (heap s e) else heap s d)"
  by (simp add: update_entry_def)

lemma set_result_sel [simp]:
  "inner (set_result e r s) = inner s" "next_eid (set_result e r s) = next_eid s"
  by (simp_all add: set_result_def)

lemma entry_notified_sel [simp]:
  "inner (entry_notified t e s) = inner s" "next_eid (entry_notified t e s) = next_eid s"
  by (simp_all add: entry_notified_def)

lemma inner_release: "inner (release k e s) = (if inner s k = Some e then (inner s)(k := None) else inner s)"
  by (auto simp: release_def split: option.splits)

lemma next_eid_release [simp]: "next_eid (release k e s) = next_eid s"
  by (auto simp: release_def split: option.splits)

section \<open>Well-formed tables\<close>

text \<open>Every address in use was handed out, the heap knows it, and no two keys share one.\<close>

definition inflight_wf :: "'r inflight \<Rightarrow> bool" where
  "inflight_wf s \<longleftrightarrow>
     (\<forall>e. heap s e \<noteq> None \<longleftrightarrow> e < next_eid s)
   \<and> (\<forall>k e. inner s k = Some e \<longrightarrow> e < next_eid s)
   \<and> (\<forall>k k' e. inner s k = Some e \<longrightarrow> inner s k' = Some e \<longrightarrow> k = k')"

lemma inflight_wf_new: "inflight_wf inflight_new"
  by (simp add: inflight_wf_def inflight_new_def)

lemma inflight_wf_update_entry [simp]: "inflight_wf (update_entry e f s) \<longleftrightarrow> inflight_wf s"
  by (auto simp: inflight_wf_def heap_update_entry)

lemma inflight_wf_set_result [simp]: "inflight_wf (set_result e r s) \<longleftrightarrow> inflight_wf s"
  by (simp add: set_result_def)

lemma inflight_wf_entry_notified [simp]: "inflight_wf (entry_notified t e s) \<longleftrightarrow> inflight_wf s"
  by (simp add: entry_notified_def)

lemma inflight_wf_release: "inflight_wf s \<Longrightarrow> inflight_wf (release k e s)"
  by (auto simp: release_def inflight_wf_def heap_update_entry split: option.splits if_splits)

lemma inflight_wf_acquire: "inflight_wf s \<Longrightarrow> inflight_wf (snd (acquire k s))"
  unfolding inflight_wf_def acquire_def
  by (auto simp: Let_def less_Suc_eq split: option.splits if_splits)

section \<open>What an entry shows after each operation\<close>

lemma entry_result_update [simp]:
  "entry_result e (set_result d r i) =
     (if e = d then map_option (\<lambda>_. r) (heap i d) else entry_result e i)"
  "entry_result e (release k d i) = entry_result e i"
  "entry_result e (entry_notified t d i) = entry_result e i"
  by (auto simp: entry_result_def set_result_def release_def entry_notified_def heap_update_entry
      split: option.split)

lemma entry_result_acquire:
  "entry_result e (snd (acquire k i)) = Some r \<Longrightarrow> entry_result e i = Some r"
  by (auto simp: acquire_def Let_def entry_result_def entry_new_def split: option.splits if_splits)

lemma entry_sel_acquire:
  assumes "inflight_wf i"
  shows "entry_woken u e (snd (acquire k i)) \<longleftrightarrow> entry_woken u e i"
    and "entry_registered u e (snd (acquire k i)) \<longleftrightarrow> entry_registered u e i"
    and "entry_result e (snd (acquire k i)) = entry_result e i"
proof -
  have "heap i (next_eid i) = None" using assms by (auto simp: inflight_wf_def)
  then show "entry_woken u e (snd (acquire k i)) \<longleftrightarrow> entry_woken u e i"
    "entry_registered u e (snd (acquire k i)) \<longleftrightarrow> entry_registered u e i"
    "entry_result e (snd (acquire k i)) = entry_result e i"
    by (auto simp: acquire_def Let_def entry_woken_def entry_registered_def entry_result_def
        entry_new_def nf.fresh split: option.splits)
qed

lemma entry_sel_set_result [simp]:
  "entry_woken u e (set_result d r i) \<longleftrightarrow> entry_woken u e i"
  "entry_registered u e (set_result d r i) \<longleftrightarrow> entry_registered u e i"
  by (auto simp: set_result_def entry_woken_def entry_registered_def heap_update_entry
      split: option.splits)

lemma entry_sel_notified [simp]:
  "entry_woken u e (entry_notified v d i) \<longleftrightarrow> entry_woken u e i"
  by (auto simp: entry_notified_def entry_woken_def heap_update_entry nf.register
      split: option.splits)

lemma entry_registered_notified:
  "entry_registered u e (entry_notified v d i) \<longleftrightarrow>
     entry_registered u e i \<or> (u = v \<and> e = d \<and> heap i d \<noteq> None)"
  by (auto simp: entry_notified_def entry_registered_def heap_update_entry nf.register
      split: option.splits)

lemma entry_sel_release:
  assumes "inner i k = Some d"
  shows "entry_woken u e (release k d i) \<longleftrightarrow> entry_woken u e i \<or> (e = d \<and> entry_registered u d i)"
    and "entry_registered u e (release k d i) \<longleftrightarrow> e \<noteq> d \<and> entry_registered u e i"
  using assms
  by (auto simp: release_def entry_woken_def entry_registered_def
      heap_update_entry nf.notify_all split: option.splits)

section \<open>The table as an interface: single flight\<close>

text \<open>
  What the handlers rely on: a key that is not in the table gets a new leader whose entry is
  nobody else's, a key that is in the table gets a follower of the entry found, and a release
  removes its own entry only.
\<close>

datatype flight_call = AcquireCall cache_key | ReleaseCall cache_key eid

locale flight_table =
  fixes table :: "'s \<Rightarrow> cache_key \<Rightarrow> eid option"
    and acq :: "cache_key \<Rightarrow> 's \<Rightarrow> permit \<times> 's"
    and rel :: "cache_key \<Rightarrow> eid \<Rightarrow> 's \<Rightarrow> 's"
    and wf :: "'s \<Rightarrow> bool"
  assumes acq_absent: "wf s \<Longrightarrow> table s k = None \<Longrightarrow>
      \<exists>e s'. acq k s = (Leader \<lparr>ig_key = k, ig_entry = e, ig_released = False\<rparr>, s')
        \<and> table s' = (table s)(k \<mapsto> e) \<and> (\<forall>j. table s j \<noteq> Some e)"
    and acq_present: "wf s \<Longrightarrow> table s k = Some e \<Longrightarrow> acq k s = (Follower e, s)"
    and rel_own: "wf s \<Longrightarrow> table s k = Some e \<Longrightarrow> table (rel k e s) = (table s)(k := None)"
    and rel_other: "wf s \<Longrightarrow> table s k \<noteq> Some e \<Longrightarrow> rel k e s = s"
    and wf_acq: "wf s \<Longrightarrow> wf (snd (acq k s))"
    and wf_rel: "wf s \<Longrightarrow> wf (rel k e s)"
begin

primrec flight_step :: "flight_call \<Rightarrow> 's \<Rightarrow> 's" where
  "flight_step (AcquireCall k) s = snd (acq k s)"
| "flight_step (ReleaseCall k e) s = rel k e s"

lemma wf_flight_step: "wf s \<Longrightarrow> wf (flight_step c s)"
  by (cases c) (auto simp: wf_acq wf_rel)

lemma wf_flight: "wf s \<Longrightarrow> wf (fold flight_step cs s)"
  by (induction cs arbitrary: s) (auto simp: wf_flight_step)

lemma table_step:
  assumes "wf s" "table s k = Some e" "c \<noteq> ReleaseCall k e"
  shows "table (flight_step c s) k = Some e"
proof (cases c)
  case (AcquireCall j)
  show ?thesis
  proof (cases "table s j")
    case None
    then have "j \<noteq> k" using assms(2) by auto
    with acq_absent [OF assms(1) None] AcquireCall assms(2) show ?thesis by auto
  next
    case (Some d)
    with acq_present [OF assms(1) Some] AcquireCall assms(2) show ?thesis by simp
  qed
next
  case (ReleaseCall j d)
  show ?thesis
  proof (cases "table s j = Some d")
    case True
    with assms(2,3) ReleaseCall have "j \<noteq> k" by auto
    with True assms(1,2) ReleaseCall show ?thesis by (simp add: rel_own)
  next
    case False
    with assms(1,2) ReleaseCall show ?thesis by (simp add: rel_other)
  qed
qed

lemma in_flight:
  "wf s \<Longrightarrow> table s k = Some e \<Longrightarrow> ReleaseCall k e \<notin> set cs \<Longrightarrow>
     table (fold flight_step cs s) k = Some e"
  by (induction cs arbitrary: s) (auto simp: table_step wf_flight_step)

text \<open>Once a leader has the key, everyone else follows it until its release.\<close>

lemma follow_until_release:
  assumes "wf s" "acq k s = (Leader g, s')" "ReleaseCall k (ig_entry g) \<notin> set cs"
  shows "fst (acq k (fold flight_step cs s')) = Follower (ig_entry g)"
proof -
  have "table s k = None"
  proof (cases "table s k")
    case (Some e)
    with acq_present [OF assms(1) Some] assms(2) show ?thesis by simp
  qed
  from acq_absent [OF assms(1) this] assms(2)
  have t: "table s' k = Some (ig_entry g)" by auto
  have w: "wf s'" using wf_acq [OF assms(1), of k] assms(2) by simp
  from acq_present [OF wf_flight [OF w] in_flight [OF w t assms(3)]] show ?thesis by simp
qed

lemma lead_after_release:
  assumes "wf s" "table s k = Some e"
  shows "\<exists>g. fst (acq k (rel k e s)) = Leader g \<and> ig_key g = k"
proof -
  have "table (rel k e s) k = None" using assms by (simp add: rel_own)
  from acq_absent [OF wf_rel [OF assms(1)] this] show ?thesis by auto
qed

end

interpretation fl: flight_table inner acquire release inflight_wf
proof unfold_locales
  fix s :: "'r inflight" and k
  assume wf: "inflight_wf s" and "inner s k = None"
  moreover from wf have "\<forall>j. inner s j \<noteq> Some (next_eid s)"
    by (auto simp: inflight_wf_def)
  ultimately show "\<exists>e s'. acquire k s = (Leader \<lparr>ig_key = k, ig_entry = e, ig_released = False\<rparr>, s')
      \<and> inner s' = (inner s)(k \<mapsto> e) \<and> (\<forall>j. inner s j \<noteq> Some e)"
    by (simp add: acquire_def Let_def)
next
  fix s :: "'r inflight" and k e
  assume "inner s k \<noteq> Some e"
  then show "release k e s = s" by (auto simp: release_def split: option.splits)
next
  fix s :: "'r inflight" and k e
  assume "inner s k = Some e"
  then show "acquire k s = (Follower e, s)" by (simp add: acquire_def)
qed (simp_all add: inner_release inflight_wf_release inflight_wf_acquire)

end
