(* ===== verification/Float64.thy ===== *)
theory Float64
  imports Prelude Complex_Main "HOL-Library.Log_Nat"
begin

text \<open>
  Rust's \<open>f64\<close> as far as \<open>metrics.rs\<close> uses it: rounding to the nearest representable number (ties to
  even), addition, \<open>round\<close> and the saturating cast \<open>as u64\<close>. A finite value is the rational it
  stands for, so the two zeros are one; no operation used here can tell them apart.
\<close>

section \<open>Values and rounding\<close>

datatype f64 = F64 rat | PosInf | NegInf | NaN

definition pow2 :: "int \<Rightarrow> rat" where
  "pow2 e = (if 0 \<le> e then 2 ^ nat e else 1 / 2 ^ nat (- e))"

text \<open>The exponent of a positive number: \<open>2 ^ e \<le> r < 2 ^ (e + 1)\<close>.\<close>

definition binade :: "rat \<Rightarrow> int" where
  "binade r = (let (n, d) = quotient_of r; e = bitlen n - bitlen d
               in if pow2 e \<le> r then e else e - 1)"

text \<open>The distance of neighbours: 53 significant bits, and \<open>2 ^ -1074\<close> for the subnormal numbers.\<close>

definition f64_ulp :: "rat \<Rightarrow> rat" where
  "f64_ulp r = pow2 (max (- 1074) (binade r - 52))"

definition round_ties_even :: "rat \<Rightarrow> int" where
  "round_ties_even q = (let f = \<lfloor>q\<rfloor>; d = q - of_int f
     in if d < 1 / 2 \<or> (d = 1 / 2 \<and> even f) then f else f + 1)"

definition f64_of_rat :: "rat \<Rightarrow> f64" where
  "f64_of_rat r =
     (if r = 0 then F64 0
      else (let ulp = f64_ulp \<bar>r\<bar>; v = of_int (round_ties_even (r / ulp)) * ulp
            in if 2 ^ 1024 \<le> v then PosInf else if v \<le> - (2 ^ 1024) then NegInf else F64 v))"

section \<open>Operations\<close>

fun f64_add :: "f64 \<Rightarrow> f64 \<Rightarrow> f64" where
  "f64_add NaN b = NaN"
| "f64_add a NaN = NaN"
| "f64_add PosInf NegInf = NaN"
| "f64_add NegInf PosInf = NaN"
| "f64_add PosInf b = PosInf"
| "f64_add a PosInf = PosInf"
| "f64_add NegInf b = NegInf"
| "f64_add a NegInf = NegInf"
| "f64_add (F64 r) (F64 s) = f64_of_rat (r + s)"

text \<open>\<open>f64::round\<close>: half away from zero. The result is representable.\<close>

fun f64_round :: "f64 \<Rightarrow> f64" where
  "f64_round (F64 r) = F64 (of_int (if 0 \<le> r then \<lfloor>r + 1 / 2\<rfloor> else - \<lfloor>1 / 2 - r\<rfloor>))"
| "f64_round v = v"

text \<open>\<open>as u64\<close> truncates, and saturates at both ends.\<close>

fun f64_as_u64 :: "f64 \<Rightarrow> u64" where
  "f64_as_u64 (F64 r) = word_of_int (max 0 (min (2 ^ 64 - 1) \<lfloor>r\<rfloor>))"
| "f64_as_u64 PosInf = word_of_int (2 ^ 64 - 1)"
| "f64_as_u64 NegInf = 0"
| "f64_as_u64 NaN = 0"

text \<open>\<open>u64 as f64\<close>.\<close>

definition u64_as_f64 :: "u64 \<Rightarrow> f64" where
  "u64_as_f64 v = f64_of_rat (of_nat (unat v))"

section \<open>Integers up to \<open>2 ^ 53\<close> are exact\<close>

lemma pow2_pos [simp]: "0 < pow2 e"
  by (simp add: pow2_def)

lemma binade_of_nat:
  assumes "0 < n"
  shows "binade (of_nat n) = bitlen (int n) - 1"
proof -
  have q: "quotient_of (of_nat n) = (int n, 1)"
    using quotient_of_int [of "int n"] by simp
  have b: "bitlen (1 :: int) = 1" by (simp add: bitlen_alt_def)
  have l: "0 \<le> bitlen (int n) - 1"
    using assms by (simp add: bitlen_alt_def)
  have "2 ^ nat (bitlen (int n) - 1) \<le> int n"
    using bitlen_bounds [of "int n"] assms by simp
  then have "(of_int (2 ^ nat (bitlen (int n) - 1)) :: rat) \<le> of_int (int n)"
    by (rule of_int_le_iff [THEN iffD2])
  then have "pow2 (bitlen (int n) - 1) \<le> of_nat n" using l by (simp add: pow2_def)
  then show ?thesis by (simp add: binade_def q b)
qed

lemma round_ties_even_of_int [simp]: "round_ties_even (of_int i) = i"
  by (simp add: round_ties_even_def)

lemma f64_of_rat_multiple:
  assumes "r = of_int m * f64_ulp \<bar>r\<bar>" and "\<bar>r\<bar> < 2 ^ 1024"
  shows "f64_of_rat r = F64 r"
proof -
  have u: "f64_ulp \<bar>r\<bar> \<noteq> 0" by (simp add: f64_ulp_def less_imp_neq [symmetric])
  have "r / f64_ulp \<bar>r\<bar> = of_int m" using assms(1) u by (metis nonzero_mult_div_cancel_right)
  then have "of_int (round_ties_even (r / f64_ulp \<bar>r\<bar>)) * f64_ulp \<bar>r\<bar> = r"
    using assms(1) by (metis round_ties_even_of_int)
  then show ?thesis using assms(2) by (auto simp: f64_of_rat_def Let_def)
qed

lemma f64_of_rat_of_nat:
  assumes "n \<le> 2 ^ 53"
  shows "f64_of_rat (of_nat n) = F64 (of_nat n)"
proof (cases "n = 0")
  case True
  then show ?thesis by (simp add: f64_of_rat_def)
next
  case False
  then have n: "0 < n" by simp
  have big: "\<bar>of_nat n :: rat\<bar> < 2 ^ 1024"
  proof -
    have "n < 2 ^ 1024" using assms by (rule le_less_trans) simp
    then have "(of_nat n :: rat) < of_nat (2 ^ 1024)" by (rule of_nat_less_iff [THEN iffD2])
    then show ?thesis by simp
  qed
  define e where "e = bitlen (int n) - 53"
  have ulp: "f64_ulp \<bar>of_nat n\<bar> = pow2 e"
    using n by (simp add: f64_ulp_def binade_of_nat e_def bitlen_nonneg)
  show ?thesis
  proof (cases "n = 2 ^ 53")
    case True
    have "bitlen ((1 :: int) * 2 ^ 53) = 54" by (subst bitlen_pow2) (simp_all add: bitlen_alt_def)
    then have "e = 1" using True by (simp add: e_def)
    show ?thesis
      by (rule f64_of_rat_multiple [where m = "2 ^ 52", OF _ big], unfold ulp)
         (simp add: True \<open>e = 1\<close> pow2_def)
  next
    case False
    with assms have "int n < 2 ^ 53" by simp
    moreover have "2 ^ nat (bitlen (int n) - 1) \<le> int n" using bitlen_bounds [of "int n"] n by simp
    ultimately have "(2::int) ^ nat (bitlen (int n) - 1) < 2 ^ 53" by linarith
    then have "nat (bitlen (int n) - 1) < 53" by (rule power_less_imp_less_exp [rotated]) simp
    then have "e \<le> 0" by (simp add: e_def)
    then have "of_nat n = (of_int (int n * 2 ^ nat (- e)) :: rat) * pow2 e"
      by (cases "e = 0") (simp_all add: pow2_def)
    then have "of_nat n = of_int (int n * 2 ^ nat (- e)) * f64_ulp \<bar>of_nat n\<bar>" unfolding ulp .
    then show ?thesis by (rule f64_of_rat_multiple [OF _ big])
  qed
qed

lemma f64_add_of_nat:
  "a + b \<le> 2 ^ 53 \<Longrightarrow> f64_add (F64 (of_nat a)) (F64 (of_nat b)) = F64 (of_nat (a + b))"
  using f64_of_rat_of_nat [of "a + b"] by simp

lemma f64_round_of_nat [simp]: "f64_round (F64 (of_nat n)) = F64 (of_nat n)"
proof -
  have "\<lfloor>(of_nat n :: rat) + 1 / 2\<rfloor> = int n" by linarith
  then show ?thesis by simp
qed

lemma f64_as_u64_of_nat:
  assumes "n < 2 ^ 64"
  shows "unat (f64_as_u64 (F64 (of_nat n))) = n"
proof -
  have "f64_as_u64 (F64 (of_nat n)) = of_nat n" using assms by simp
  with assms show ?thesis by (simp add: unat_of_nat take_bit_eq_mod)
qed

section \<open>Beyond\<close>

text \<open>From \<open>2 ^ 53\<close> on the neighbours are two apart: adding one rounds back.\<close>

lemma f64_add_one_lost: "f64_add (F64 (2 ^ 53)) (F64 1) = F64 (2 ^ 53)"
proof -
  have b: "bitlen (int (2 ^ 53 + 1)) = 54"
  proof -
    have "bitlen (int (2 ^ 53 + 1)) = int (floorlog 2 (2 ^ 53 + 1))" by (simp add: bitlen_def)
    moreover have "floorlog 2 (2 ^ 53 + 1) \<le> 54" by (rule floorlog_leI) simp_all
    moreover have "54 \<le> floorlog 2 (2 ^ 53 + 1)" by (rule floorlog_geI) simp_all
    ultimately show ?thesis by simp
  qed
  have "binade (of_nat (2 ^ 53 + 1)) = 53" using binade_of_nat [of "2 ^ 53 + 1"] b by simp
  then have "f64_ulp (of_nat (2 ^ 53 + 1)) = 2" by (simp add: f64_ulp_def pow2_def)
  moreover have "round_ties_even ((2 ^ 53 + 1) / 2) = 2 ^ 52"
    by (simp add: round_ties_even_def Let_def floor_divide_of_int_eq [of "2 ^ 53 + 1" 2, simplified])
  ultimately show ?thesis by (simp add: f64_of_rat_def)
qed

end
