(* ===== verification/Metrics.thy ===== *)
theory Metrics
  imports Config Float64
begin

text \<open>
  Model of \<open>src/metrics.rs\<close>. The Prometheus registry is library code: what the program does to it
  is the list of its calls (\<open>metric_event\<close>), and what it reads back is the list of metric
  families \<open>Registry::gather\<close> returns; \<open>families_report\<close> states what that list promises about
  the calls. \<open>f64\<close> is the type of theory \<open>Float64\<close>, with its rounding.
\<close>

section \<open>Upstream errors\<close>

text \<open>
  \<open>object_store::Error\<close>: the variants the code names, and one constructor for the others with
  the variant's name.
\<close>

datatype store_error =
    SE_NotFound | SE_PermissionDenied | SE_Unauthenticated | SE_NotSupported | SE_Precondition
  | SE_Other rstr

datatype upstream_error_kind =
    NotFound | PermissionDenied | Unauthenticated | NotSupported | Precondition | Other

fun from_store_error :: "store_error \<Rightarrow> upstream_error_kind" where
  "from_store_error SE_NotFound = NotFound"
| "from_store_error SE_PermissionDenied = PermissionDenied"
| "from_store_error SE_Unauthenticated = Unauthenticated"
| "from_store_error SE_NotSupported = NotSupported"
| "from_store_error SE_Precondition = Precondition"
| "from_store_error _ = Other"

primrec upstream_error_kind_as_str :: "upstream_error_kind \<Rightarrow> rstr" where
  "upstream_error_kind_as_str NotFound = lit ''not_found''"
| "upstream_error_kind_as_str PermissionDenied = lit ''permission_denied''"
| "upstream_error_kind_as_str Unauthenticated = lit ''unauthenticated''"
| "upstream_error_kind_as_str NotSupported = lit ''not_supported''"
| "upstream_error_kind_as_str Precondition = lit ''precondition''"
| "upstream_error_kind_as_str Other = lit ''other''"

lemma upstream_error_kind_as_str_inject [simp]:
  "upstream_error_kind_as_str a = upstream_error_kind_as_str b \<longleftrightarrow> a = b"
  by (cases a; cases b) simp_all

text \<open>The kinds are finitely many, so that the values of the label are a list.\<close>

instantiation upstream_error_kind :: enum
begin

definition enum_upstream_error_kind :: "upstream_error_kind list" where
  "enum_upstream_error_kind =
     [NotFound, PermissionDenied, Unauthenticated, NotSupported, Precondition, Other]"

definition enum_all_upstream_error_kind :: "(upstream_error_kind \<Rightarrow> bool) \<Rightarrow> bool" where
  "enum_all_upstream_error_kind P \<longleftrightarrow> list_all P Enum.enum"

definition enum_ex_upstream_error_kind :: "(upstream_error_kind \<Rightarrow> bool) \<Rightarrow> bool" where
  "enum_ex_upstream_error_kind P \<longleftrightarrow> list_ex P Enum.enum"

instance
proof
  have all: "k \<in> set Enum.enum" for k :: upstream_error_kind
    by (cases k) (simp_all add: enum_upstream_error_kind_def)
  then show "UNIV = set (Enum.enum :: upstream_error_kind list)" by blast
  show "distinct (Enum.enum :: upstream_error_kind list)" by (simp add: enum_upstream_error_kind_def)
  fix P :: "upstream_error_kind \<Rightarrow> bool"
  show "Enum.enum_all P \<longleftrightarrow> Ball UNIV P"
    using all by (auto simp: enum_all_upstream_error_kind_def list_all_iff)
  show "Enum.enum_ex P \<longleftrightarrow> Bex UNIV P"
    using all by (auto simp: enum_ex_upstream_error_kind_def list_ex_iff)
qed

end

section \<open>Calls to the registry\<close>

datatype metric_event =
    CounterIncrease rstr "rstr list" nat
  | HistogramRecord rstr "rstr list" f64

text \<open>
  A registered vector: its name, help text and labels, and the buckets of a histogram. \<open>Metrics\<close> holds
  the handles; the two registries it also holds are the library's.
\<close>

datatype metric_vec =
    CounterVec (vec_name: rstr) (vec_help: rstr) (vec_labels: "rstr list")
  | HistogramVec (vec_name: rstr) (vec_help: rstr) (vec_labels: "rstr list") (vec_buckets: "f64 list")

record metrics =
  mx_requests_total :: metric_vec
  mx_auth_fail_total :: metric_vec
  mx_cache_hit_total :: metric_vec
  mx_cache_miss_total :: metric_vec
  mx_upstream_ok_total :: metric_vec
  mx_upstream_err_total :: metric_vec
  mx_upstream_latency_ms :: metric_vec

definition metrics_new :: metrics where
  "metrics_new =
     \<lparr>mx_requests_total = CounterVec (lit ''cachegate_requests_total'')
        (lit ''Total requests served by cachegate'') [lit ''method'', lit ''status''],
      mx_auth_fail_total = CounterVec (lit ''cachegate_auth_fail_total'')
        (lit ''Total authentication failures'') [lit ''method''],
      mx_cache_hit_total = CounterVec (lit ''cachegate_cache_hit_total'')
        (lit ''Total cache hits'') [lit ''method''],
      mx_cache_miss_total = CounterVec (lit ''cachegate_cache_miss_total'')
        (lit ''Total cache misses'') [lit ''method''],
      mx_upstream_ok_total = CounterVec (lit ''cachegate_upstream_ok_total'')
        (lit ''Total upstream successes'') [lit ''method''],
      mx_upstream_err_total = CounterVec (lit ''cachegate_upstream_err_total'')
        (lit ''Total upstream errors'') [lit ''method'', lit ''error_kind''],
      mx_upstream_latency_ms = HistogramVec (lit ''cachegate_upstream_latency_ms'')
        (lit ''Upstream request latency in milliseconds'') [lit ''method'']
        [F64 1, F64 5, F64 10, F64 25, F64 50, F64 100, F64 250, F64 500, F64 1000, F64 2000, F64 5000]\<rparr>"

text \<open>The vectors the registry knows, in the order of their registration.\<close>

definition metrics_vecs :: "metrics \<Rightarrow> metric_vec list" where
  "metrics_vecs m =
     [mx_requests_total m, mx_auth_fail_total m, mx_cache_hit_total m, mx_cache_miss_total m,
      mx_upstream_ok_total m, mx_upstream_err_total m, mx_upstream_latency_ms m]"

text \<open>\<open>counter(labels).increase(n)\<close> and \<open>histogram(labels).record(v)\<close> on a handle.\<close>

definition counter_increase :: "metric_vec \<Rightarrow> rstr list \<Rightarrow> nat \<Rightarrow> metric_event" where
  "counter_increase vec labels n = CounterIncrease (vec_name vec) labels n"

definition histogram_record :: "metric_vec \<Rightarrow> rstr list \<Rightarrow> f64 \<Rightarrow> metric_event" where
  "histogram_record vec labels v = HistogramRecord (vec_name vec) labels v"

text \<open>There is one \<open>Metrics\<close> value, made by \<open>async_main\<close>.\<close>

definition inc_requests :: "rstr \<Rightarrow> rstr \<Rightarrow> metric_event" where
  "inc_requests method status = counter_increase (mx_requests_total metrics_new) [method, status] 1"

definition inc_auth_fail :: "rstr \<Rightarrow> metric_event" where
  "inc_auth_fail method = counter_increase (mx_auth_fail_total metrics_new) [method] 1"

definition inc_cache_hit :: "rstr \<Rightarrow> metric_event" where
  "inc_cache_hit method = counter_increase (mx_cache_hit_total metrics_new) [method] 1"

definition inc_cache_miss :: "rstr \<Rightarrow> metric_event" where
  "inc_cache_miss method = counter_increase (mx_cache_miss_total metrics_new) [method] 1"

definition inc_upstream_ok :: "rstr \<Rightarrow> metric_event" where
  "inc_upstream_ok method = counter_increase (mx_upstream_ok_total metrics_new) [method] 1"

definition inc_upstream_err :: "rstr \<Rightarrow> upstream_error_kind \<Rightarrow> metric_event" where
  "inc_upstream_err method error_kind =
     counter_increase (mx_upstream_err_total metrics_new)
       [method, upstream_error_kind_as_str error_kind] 1"

definition observe_upstream_latency_ms :: "rstr \<Rightarrow> u64 \<Rightarrow> metric_event" where
  "observe_upstream_latency_ms method value_ms =
     histogram_record (mx_upstream_latency_ms metrics_new) [method] (u64_as_f64 value_ms)"

lemma metric_event_defs:
  "inc_requests m st = CounterIncrease (lit ''cachegate_requests_total'') [m, st] 1"
  "inc_auth_fail m = CounterIncrease (lit ''cachegate_auth_fail_total'') [m] 1"
  "inc_cache_hit m = CounterIncrease (lit ''cachegate_cache_hit_total'') [m] 1"
  "inc_cache_miss m = CounterIncrease (lit ''cachegate_cache_miss_total'') [m] 1"
  "inc_upstream_ok m = CounterIncrease (lit ''cachegate_upstream_ok_total'') [m] 1"
  "inc_upstream_err m e =
     CounterIncrease (lit ''cachegate_upstream_err_total'') [m, upstream_error_kind_as_str e] 1"
  "observe_upstream_latency_ms m v =
     HistogramRecord (lit ''cachegate_upstream_latency_ms'') [m] (u64_as_f64 v)"
  by (simp_all add: inc_requests_def inc_auth_fail_def inc_cache_hit_def inc_cache_miss_def
      inc_upstream_ok_def inc_upstream_err_def observe_upstream_latency_ms_def counter_increase_def
      histogram_record_def metrics_new_def)

section \<open>Reading the registry\<close>

record metric =
  m_labels :: "rstr list"
  m_counter :: f64
  m_gauge :: f64

record metric_family =
  mf_name :: rstr
  mf_metrics :: "metric list"

definition sum_counter :: "metric_family list \<Rightarrow> rstr \<Rightarrow> u64" where
  "sum_counter metric_families name =
     (case find (\<lambda>family. mf_name family = name) metric_families of
        Some family \<Rightarrow>
          f64_as_u64 (f64_round (foldl (\<lambda>total m. f64_add total (m_counter m)) (F64 0) (mf_metrics family)))
      | None \<Rightarrow> 0)"

definition sum_gauge :: "metric_family list \<Rightarrow> rstr \<Rightarrow> u64" where
  "sum_gauge metric_families name =
     (case find (\<lambda>family. mf_name family = name) metric_families of
        Some family \<Rightarrow>
          f64_as_u64 (f64_round (foldl (\<lambda>total m. f64_add total (m_gauge m)) (F64 0) (mf_metrics family)))
      | None \<Rightarrow> 0)"

record metrics_snapshot =
  snap_requests_total :: u64
  snap_auth_fail_total :: u64
  snap_cache_hit_total :: u64
  snap_cache_miss_total :: u64
  snap_upstream_ok_total :: u64
  snap_upstream_err_total :: u64
  snap_cache_entries :: u64
  snap_cache_bytes :: u64

definition snapshot :: "metric_family list \<Rightarrow> metrics_snapshot" where
  "snapshot metric_families =
     \<lparr>snap_requests_total = sum_counter metric_families (lit ''cachegate_requests_total''),
      snap_auth_fail_total = sum_counter metric_families (lit ''cachegate_auth_fail_total''),
      snap_cache_hit_total = sum_counter metric_families (lit ''cachegate_cache_hit_total''),
      snap_cache_miss_total = sum_counter metric_families (lit ''cachegate_cache_miss_total''),
      snap_upstream_ok_total = sum_counter metric_families (lit ''cachegate_upstream_ok_total''),
      snap_upstream_err_total = sum_counter metric_families (lit ''cachegate_upstream_err_total''),
      snap_cache_entries = sum_gauge metric_families (lit ''cachegate_cache_entries''),
      snap_cache_bytes = sum_gauge metric_families (lit ''cachegate_cache_bytes'')\<rparr>"

text \<open>\<open>TextEncoder::encode\<close> and \<open>String::from_utf8\<close> are library calls that may fail.\<close>

definition render_prometheus ::
    "(metric_family list \<Rightarrow> bytes option) \<Rightarrow> (bytes \<Rightarrow> rstr option) \<Rightarrow> metric_family list \<Rightarrow> rstr" where
  "render_prometheus encode from_utf8 metric_families =
     (case encode metric_families of
        None \<Rightarrow> []
      | Some buffer \<Rightarrow> (case from_utf8 buffer of None \<Rightarrow> [] | Some s \<Rightarrow> s))"

section \<open>What a snapshot counts\<close>

text \<open>The increments recorded for a counter, over all its labels and for one label tuple.\<close>

primrec event_amount :: "rstr \<Rightarrow> metric_event \<Rightarrow> nat" where
  "event_amount name (CounterIncrease n ls a) = (if n = name then a else 0)"
| "event_amount name (HistogramRecord n ls v) = 0"

primrec event_labels :: "metric_event \<Rightarrow> rstr list" where
  "event_labels (CounterIncrease n ls a) = ls"
| "event_labels (HistogramRecord n ls v) = ls"

definition counter_total :: "rstr \<Rightarrow> metric_event list \<Rightarrow> nat" where
  "counter_total name evs = sum_list (map (event_amount name) evs)"

definition labelled_total :: "rstr \<Rightarrow> rstr list \<Rightarrow> metric_event list \<Rightarrow> nat" where
  "labelled_total name ls evs =
     sum_list (map (event_amount name) (filter (\<lambda>ev. event_labels ev = ls) evs))"

text \<open>
  The registry's promise for one counter: its family, if any, has one metric per label tuple, no
  tuple that was incremented is missing, and a metric has the sum of its tuple's increments. A
  counter's value is an \<open>f64\<close>, so nothing is promised of a tuple whose sum is beyond \<open>2 ^ 53\<close>.
\<close>

definition families_report :: "metric_event list \<Rightarrow> metric_family list \<Rightarrow> rstr \<Rightarrow> bool" where
  "families_report evs fams name \<longleftrightarrow>
     (case find (\<lambda>f. mf_name f = name) fams of
        None \<Rightarrow> counter_total name evs = 0
      | Some f \<Rightarrow>
          distinct (map m_labels (mf_metrics f))
          \<and> (\<forall>m \<in> set (mf_metrics f). labelled_total name (m_labels m) evs \<le> 2 ^ 53 \<longrightarrow>
               m_counter m = F64 (of_nat (labelled_total name (m_labels m) evs)))
          \<and> (\<forall>ev \<in> set evs. event_amount name ev \<noteq> 0 \<longrightarrow>
               event_labels ev \<in> m_labels ` set (mf_metrics f)))"

lemma counter_total_simps [simp]:
  "counter_total name [] = 0"
  "counter_total name (ev # evs) = event_amount name ev + counter_total name evs"
  by (simp_all add: counter_total_def)

lemma counter_total_append [simp]:
  "counter_total name (evs @ evs') = counter_total name evs + counter_total name evs'"
  by (simp add: counter_total_def)

lemma labelled_total_Cons:
  "labelled_total name ls (ev # evs) =
     (if event_labels ev = ls then event_amount name ev else 0) + labelled_total name ls evs"
  by (simp add: labelled_total_def)

lemma sum_labelled_total:
  assumes "distinct lss" and "\<forall>ev \<in> set evs. event_amount name ev \<noteq> 0 \<longrightarrow> event_labels ev \<in> set lss"
  shows "sum_list (map (\<lambda>ls. labelled_total name ls evs) lss) = counter_total name evs"
  using assms(2)
proof (induction evs)
  case Nil
  then show ?case by (simp add: labelled_total_def)
next
  case (Cons ev evs)
  have "sum_list (map (\<lambda>ls. if event_labels ev = ls then event_amount name ev else 0) lss)
      = (if event_labels ev \<in> set lss then event_amount name ev else 0)"
    using assms(1) by (induction lss) auto
  also have "\<dots> = event_amount name ev" using Cons.prems by auto
  finally show ?case
    using Cons by (simp add: labelled_total_Cons sum_list_addf)
qed

lemma foldl_counter:
  assumes "\<forall>m \<in> set ms. f (m_labels m) \<le> 2 ^ 53 \<longrightarrow> m_counter m = F64 (of_nat (f (m_labels m)))"
    and "a + sum_list (map f (map m_labels ms)) \<le> 2 ^ 53"
  shows "foldl (\<lambda>total m. f64_add total (m_counter m)) (F64 (of_nat a)) ms =
    F64 (of_nat (a + sum_list (map f (map m_labels ms))))"
  using assms
proof (induction ms arbitrary: a)
  case (Cons m ms)
  then have "m_counter m = F64 (of_nat (f (m_labels m)))" by simp
  moreover have "f64_add (F64 (of_nat a)) (F64 (of_nat (f (m_labels m)))) = F64 (of_nat (a + f (m_labels m)))"
    by (rule f64_add_of_nat) (use Cons.prems in simp)
  ultimately show ?case using Cons.IH [of "a + f (m_labels m)"] Cons.prems by (simp add: add.assoc)
qed simp

lemma sum_counter_total:
  assumes "families_report evs fams name" and "counter_total name evs \<le> 2 ^ 53"
  shows "unat (sum_counter fams name) = counter_total name evs"
proof (cases "find (\<lambda>f. mf_name f = name) fams")
  case None
  with assms(1) show ?thesis by (simp add: families_report_def sum_counter_def)
next
  case (Some f)
  let ?total = "\<lambda>ls. labelled_total name ls evs"
  from Some assms(1) have d: "distinct (map m_labels (mf_metrics f))"
    and c: "\<forall>m \<in> set (mf_metrics f). ?total (m_labels m) \<le> 2 ^ 53 \<longrightarrow>
      m_counter m = F64 (of_nat (?total (m_labels m)))"
    and l: "\<forall>ev \<in> set evs. event_amount name ev \<noteq> 0 \<longrightarrow>
      event_labels ev \<in> set (map m_labels (mf_metrics f))"
    by (simp_all add: families_report_def)
  have s: "sum_list (map ?total (map m_labels (mf_metrics f))) = counter_total name evs"
    by (rule sum_labelled_total [OF d l])
  then have "foldl (\<lambda>total m. f64_add total (m_counter m)) (F64 0) (mf_metrics f)
      = F64 (of_nat (counter_total name evs))"
    using foldl_counter [OF c, of 0] assms(2) by (simp add: comp_def)
  then have "sum_counter fams name = f64_as_u64 (F64 (of_nat (counter_total name evs)))"
    using Some by (simp add: sum_counter_def del: f64_as_u64.simps f64_round.simps)
  also have "unat \<dots> = counter_total name evs"
    by (rule f64_as_u64_of_nat) (use assms(2) in simp)
  finally show ?thesis .
qed

text \<open>Once a total has reached \<open>2 ^ 53\<close>, series of one increment each do not move it.\<close>

lemma foldl_counter_stalls:
  "m_counter ` set ms \<subseteq> {F64 0, F64 1} \<Longrightarrow>
     foldl (\<lambda>total m. f64_add total (m_counter m)) (F64 (2 ^ 53)) ms = F64 (2 ^ 53)"
proof (induction ms)
  case (Cons m ms)
  have "f64_add (F64 (2 ^ 53)) (F64 0) = F64 (2 ^ 53)"
    using f64_add_of_nat [of "2 ^ 53" 0] by simp
  with f64_add_one_lost Cons show ?case by (auto simp del: f64_add.simps)
qed simp

end
