(* ===== verification/Azure_Conn.thy ===== *)
theory Azure_Conn
  imports Config
begin

text \<open>
  Model of \<open>src/store/azure.rs\<close>: the connection-string parser and the calls that configure the
  Azure builder. \<open>MicrosoftAzureBuilder\<close> is library code: the model records the calls made on it
  and the parameter \<open>build\<close> is its \<open>build\<close> method.
\<close>

section \<open>Data\<close>

type_synonym store_ref = nat

record azure_connection_info =
  az_account :: rstr
  az_access_key :: rstr
  az_endpoint :: "rstr option"
  az_allow_http :: bool

datatype azure_call =
    AzAccount rstr | AzAccessKey rstr | AzContainerName rstr | AzEndpoint rstr | AzAllowHttp bool

section \<open>The parser\<close>

text \<open>One round of the loop over the segments: \<open>None\<close> is \<open>continue\<close>.\<close>

definition parse_segment :: "rstr \<Rightarrow> (rstr \<times> rstr) option" where
  "parse_segment segment =
     (let trimmed = trim segment in
      if trimmed = [] then None
      else
        (let parts = splitn2 61 trimmed;
             key = trim (fst parts);
             value = trim (case snd parts of Some v \<Rightarrow> v | None \<Rightarrow> [])
         in if key = [] then None
            else Some (to_ascii_lowercase key, trim (trim_matches 39 (trim_matches 34 value)))))"

definition insert_segment :: "rstr \<Rightarrow> (rstr \<Rightarrow> rstr option) \<Rightarrow> rstr \<Rightarrow> rstr option" where
  "insert_segment segment values =
     (case parse_segment segment of None \<Rightarrow> values | Some (key, value) \<Rightarrow> values(key \<mapsto> value))"

definition parse_values :: "rstr \<Rightarrow> rstr \<Rightarrow> rstr option" where
  "parse_values connection_string =
     fold insert_segment (split_char 59 connection_string) Map.empty"

definition filter_nonempty :: "rstr option \<Rightarrow> rstr option" where
  "filter_nonempty v = (case v of None \<Rightarrow> None | Some s \<Rightarrow> if s = [] then None else Some s)"

text \<open>
  The lookups are \<open>remove\<close>s of five different keys from a map that is dropped at the end, so each
  of them sees the map the loop built.
\<close>

definition parse_connection_string :: "rstr \<Rightarrow> anyhow + azure_connection_info" where
  "parse_connection_string connection_string =
     (let values = parse_values connection_string in
      and_then (ok_or [lit ''missing AccountName''] (filter_nonempty (values (lit ''accountname''))))
        (\<lambda>account.
      and_then (ok_or [lit ''missing AccountKey''] (filter_nonempty (values (lit ''accountkey''))))
        (\<lambda>access_key.
      let blob_endpoint = filter_nonempty (values (lit ''blobendpoint''));
          protocol = map_option to_ascii_lowercase (values (lit ''defaultendpointsprotocol''));
          endpoint_suffix = values (lit ''endpointsuffix'');
          endpoint =
            (case (blob_endpoint, endpoint_suffix) of
               (Some endpoint, _) \<Rightarrow> Some endpoint
             | (None, Some suffix) \<Rightarrow>
                 (let scheme = (case protocol of Some p \<Rightarrow> p | None \<Rightarrow> lit ''https'')
                  in Some (scheme @ lit ''://'' @ account @ lit ''.blob.'' @ suffix))
             | (None, None) \<Rightarrow> None);
          allow_http =
            (case endpoint of
               Some value \<Rightarrow> starts_with (lit ''http://'') (to_ascii_lowercase value)
             | None \<Rightarrow> False)
            \<or> (case protocol of Some value \<Rightarrow> value = lit ''http'' | None \<Rightarrow> False)
      in Inr \<lparr>az_account = account, az_access_key = access_key, az_endpoint = endpoint,
              az_allow_http = allow_http\<rparr>)))"

definition build_azure_store ::
    "(azure_call list \<Rightarrow> anyhow + store_ref) \<Rightarrow> rstr \<Rightarrow> rstr \<Rightarrow> rstr \<Rightarrow> anyhow + store_ref" where
  "build_azure_store build store_id container connection_string =
     and_then
       (context_msg (lit ''failed to parse azure connection string for store '' @ store_id)
         (parse_connection_string connection_string)) (\<lambda>info.
       build
         ([AzAccount (az_account info), AzAccessKey (az_access_key info), AzContainerName container]
          @ (case az_endpoint info of Some endpoint \<Rightarrow> [AzEndpoint endpoint] | None \<Rightarrow> [])
          @ (if az_allow_http info then [AzAllowHttp True] else [])))"

section \<open>Printing connection strings, to state the round trip\<close>

fun print_segments :: "(rstr \<times> rstr) list \<Rightarrow> rstr" where
  "print_segments [] = []"
| "print_segments [(k, v)] = k @ 61 # v"
| "print_segments ((k, v) # kvs) = k @ 61 # v @ 59 # print_segments kvs"

text \<open>
  Keys and values the format can carry: no separator in them (a value may hold \<open>=\<close>), and no white
  space or quotes around them.
\<close>

definition plain_key :: "rstr \<Rightarrow> bool" where
  "plain_key k \<longleftrightarrow> k \<noteq> [] \<and> 59 \<notin> set k \<and> 61 \<notin> set k \<and> tight is_whitespace k"

definition plain_value :: "rstr \<Rightarrow> bool" where
  "plain_value v \<longleftrightarrow> 59 \<notin> set v \<and> tight is_whitespace v
     \<and> tight (\<lambda>c. c = 34) v \<and> tight (\<lambda>c. c = 39) v"

definition plain_pair :: "rstr \<times> rstr \<Rightarrow> bool" where
  "plain_pair kv \<longleftrightarrow> plain_key (fst kv) \<and> plain_value (snd kv)"

lemma is_whitespace_equals [simp]: "\<not> is_whitespace 61"
  by (simp add: is_whitespace_def)

lemma parse_segment_plain:
  assumes "plain_pair (k, v)"
  shows "parse_segment (k @ 61 # v) = Some (to_ascii_lowercase k, v)"
proof -
  have k: "k \<noteq> []" "61 \<notin> set k" "tight is_whitespace k"
    and v: "tight is_whitespace v" "tight (\<lambda>c. c = 34) v" "tight (\<lambda>c. c = 39) v"
    using assms by (auto simp: plain_pair_def plain_key_def plain_value_def)
  have "tight is_whitespace (k @ 61 # v)"
    using k v by (auto simp: tight_def)
  then have "trim (k @ 61 # v) = k @ 61 # v" by (rule trim_by_tight)
  moreover have "splitn2 61 (k @ 61 # v) = (k, Some v)"
    using k(2) by (simp add: splitn2_def split_once_append)
  ultimately show ?thesis
    using k v by (simp add: parse_segment_def trim_by_tight)
qed

definition store_pair :: "rstr \<times> rstr \<Rightarrow> (rstr \<Rightarrow> rstr option) \<Rightarrow> rstr \<Rightarrow> rstr option" where
  "store_pair kv m = m(to_ascii_lowercase (fst kv) \<mapsto> snd kv)"

lemma insert_segment_plain:
  "plain_pair (k, v) \<Longrightarrow> insert_segment (k @ 61 # v) m = store_pair (k, v) m"
  by (simp add: insert_segment_def parse_segment_plain store_pair_def)

lemma insert_segment_Nil [simp]: "insert_segment [] m = m"
  by (simp add: insert_segment_def parse_segment_def)

lemma fold_print_segments:
  "\<forall>kv \<in> set kvs. plain_pair kv \<Longrightarrow>
     fold insert_segment (split_char 59 (print_segments kvs)) m = fold store_pair kvs m"
proof (induction kvs arbitrary: m rule: print_segments.induct)
  case 1
  then show ?case by simp
next
  case (2 k v)
  then have "\<forall>c \<in> set (k @ 61 # v). c \<noteq> 59"
    by (auto simp: plain_pair_def plain_key_def plain_value_def)
  then have "split_char 59 (k @ 61 # v) = [k @ 61 # v]" by (rule split_by_none)
  with 2 show ?case by (simp add: insert_segment_plain)
next
  case (3 k v kv kvs)
  then have "\<forall>c \<in> set (k @ 61 # v). c \<noteq> 59"
    by (auto simp: plain_pair_def plain_key_def plain_value_def)
  from split_by_append_sep [OF this, of 59 "print_segments (kv # kvs)"]
  have "split_char 59 (print_segments ((k, v) # kv # kvs))
      = (k @ 61 # v) # split_char 59 (print_segments (kv # kvs))" by simp
  with 3 show ?case by (simp add: insert_segment_plain)
qed

lemma parse_values_print:
  "\<forall>kv \<in> set kvs. plain_pair kv \<Longrightarrow>
     parse_values (print_segments kvs) = fold store_pair kvs Map.empty"
  by (simp add: parse_values_def fold_print_segments)

lemma parse_values_append:
  assumes "plain_pair (k, v)"
  shows "parse_values (s @ 59 # k @ 61 # v) = store_pair (k, v) (parse_values s)"
proof -
  have "\<forall>c \<in> set (k @ 61 # v). c \<noteq> 59"
    using assms by (auto simp: plain_pair_def plain_key_def plain_value_def)
  then have "split_char 59 (k @ 61 # v) = [k @ 61 # v]" by (rule split_by_none)
  then show ?thesis by (simp add: parse_values_def split_by_append insert_segment_plain [OF assms])
qed

lemma filter_nonempty_Some [simp]: "filter_nonempty v = Some s \<longleftrightarrow> v = Some s \<and> s \<noteq> []"
  by (cases v) (auto simp: filter_nonempty_def)

end
