(* ===== verification/Stores.thy ===== *)
theory Stores
  imports Azure_Conn
begin

text \<open>
  Model of \<open>src/store/mod.rs\<close>: \<open>build_stores\<close> turns the configured stores into the map from store
  ids to object stores, stopping at the first builder that fails. A store is the opaque reference
  its builder returns.
\<close>

type_synonym store_map = "rstr \<Rightarrow> store_ref option"

datatype s3_call =
    S3BucketName rstr | S3Region rstr | S3AccessKeyId rstr | S3SecretAccessKey rstr
  | S3Endpoint rstr | S3AllowHttp bool

record store_builders =
  build_s3 :: "s3_call list \<Rightarrow> anyhow + store_ref"
  build_azure :: "azure_call list \<Rightarrow> anyhow + store_ref"

definition build_store ::
    "store_builders \<Rightarrow> rstr \<Rightarrow> store_config \<Rightarrow> anyhow + store_ref" where
  "build_store b store_id config =
     (case config of
        S3 bucket region access_key secret_key endpoint allow_http \<Rightarrow>
          build_s3 b
            ([S3BucketName bucket, S3Region region, S3AccessKeyId access_key,
              S3SecretAccessKey secret_key]
             @ (case endpoint of Some e \<Rightarrow> [S3Endpoint e] | None \<Rightarrow> [])
             @ (if (case allow_http of Some h \<Rightarrow> h | None \<Rightarrow> False) then [S3AllowHttp True] else []))
      | Azure container connection_string \<Rightarrow>
          build_azure_store (build_azure b) store_id container connection_string)"

fun build_stores_loop ::
    "store_builders \<Rightarrow> store_map \<Rightarrow> (rstr \<times> store_config) list \<Rightarrow> anyhow + store_map" where
  "build_stores_loop b stores [] = Inr stores"
| "build_stores_loop b stores ((store_id, config) # configs) =
     and_then (build_store b store_id config) (\<lambda>store.
       build_stores_loop b (stores(store_id \<mapsto> store)) configs)"

definition build_stores ::
    "store_builders \<Rightarrow> (rstr \<times> store_config) list \<Rightarrow> anyhow + store_map" where
  "build_stores b configs = build_stores_loop b Map.empty configs"

section \<open>The result is the pointwise map, in any iteration order\<close>

definition built :: "store_builders \<Rightarrow> (rstr \<times> store_config) list \<Rightarrow> store_map" where
  "built b configs store_id =
     (case map_of configs store_id of
        None \<Rightarrow> None
      | Some config \<Rightarrow> (case build_store b store_id config of Inl e \<Rightarrow> None | Inr store \<Rightarrow> Some store))"

definition all_build :: "store_builders \<Rightarrow> (rstr \<times> store_config) list \<Rightarrow> bool" where
  "all_build b configs \<longleftrightarrow> (\<forall>(store_id, config) \<in> set configs. \<exists>store. build_store b store_id config = Inr store)"

lemma all_build_Cons [simp]:
  "all_build b ((store_id, config) # configs) \<longleftrightarrow>
     (\<exists>store. build_store b store_id config = Inr store) \<and> all_build b configs"
  by (auto simp: all_build_def)

lemma build_stores_loop_ok:
  assumes "distinct (map fst configs)" "all_build b configs"
  shows "build_stores_loop b stores configs = Inr (stores ++ built b configs)"
  using assms
proof (induction configs arbitrary: stores)
  case Nil
  have "built b [] = Map.empty" by (simp add: built_def fun_eq_iff)
  then show ?case by simp
next
  case (Cons c configs)
  obtain store_id config where c: "c = (store_id, config)" by (cases c)
  with Cons.prems obtain store where s: "build_store b store_id config = Inr store" by auto
  have "stores(store_id \<mapsto> store) ++ built b configs = stores ++ built b (c # configs)"
  proof
    fix j
    have "map_of configs store_id = None" using Cons.prems(1) c by (simp add: map_of_eq_None_iff)
    then show "(stores(store_id \<mapsto> store) ++ built b configs) j = (stores ++ built b (c # configs)) j"
      using s c by (simp add: map_add_def built_def split: option.split)
  qed
  with Cons c s show ?case by simp
qed

lemma build_stores_loop_err:
  "\<not> all_build b configs \<Longrightarrow> \<exists>e. build_stores_loop b stores configs = Inl e"
proof (induction configs arbitrary: stores)
  case Nil
  then show ?case by (simp add: all_build_def)
next
  case (Cons c configs)
  then show ?case by (cases c; cases "build_store b (fst c) (snd c)") auto
qed

lemma all_build_perm: "set configs = set configs' \<Longrightarrow> all_build b configs = all_build b configs'"
  by (simp add: all_build_def)

lemma built_perm:
  assumes "set configs = set configs'" "distinct (map fst configs)" "distinct (map fst configs')"
  shows "built b configs = built b configs'"
proof -
  have "map_of configs = map_of configs'"
    using assms by (simp add: map_of_inject_set)
  then show ?thesis by (simp add: built_def fun_eq_iff)
qed

end
