(* ===== verification/Program.thy ===== *)
theory Program
  imports Auth Inflight Metrics Stores
begin

text \<open>
  The language the asynchronous code is translated to. An \<open>async fn\<close> becomes a \<open>prog\<close>: a tree
  whose nodes are the operations on state shared with other tasks or with the outside (cache,
  in-flight table, object store, metrics, clock, task spawning) and whose branches are the answers
  to them. The text between two such operations is pure and is computed by the tree. A callee is
  written in continuation-passing style, so that \<open>return\<close> and \<open>break 'request\<close> are the choice of a
  continuation. Theory \<open>Semantics\<close> gives the operations their meaning.
\<close>

section \<open>HTTP data\<close>

type_synonym header_value = bytes
type_synonym header_map = "rstr \<Rightarrow> header_value option"
type_synonym location = rstr

datatype body = EmptyBody | BytesBody bytes | TextBody rstr

record http_response =
  rs_status :: nat
  rs_headers :: header_map
  rs_body :: body

text \<open>The value \<open>Response::new\<close> makes: status 200, no headers.\<close>

definition response_new :: "body \<Rightarrow> http_response" where
  "response_new b = \<lparr>rs_status = 200, rs_headers = (\<lambda>_. None), rs_body = b\<rparr>"

definition insert_header :: "rstr \<Rightarrow> header_value \<Rightarrow> http_response \<Rightarrow> http_response" where
  "insert_header name value r = r\<lparr>rs_headers := (rs_headers r)(name \<mapsto> value)\<rparr>"

abbreviation CONTENT_TYPE :: rstr where "CONTENT_TYPE \<equiv> lit ''content-type''"
abbreviation CONTENT_LENGTH :: rstr where "CONTENT_LENGTH \<equiv> lit ''content-length''"
abbreviation AUTHORIZATION :: rstr where "AUTHORIZATION \<equiv> lit ''authorization''"
abbreviation CG_STATUS :: rstr where "CG_STATUS \<equiv> lit ''x-cg-status''"

lemma insert_header_sel [simp]:
  "rs_status (insert_header n v r) = rs_status r"
  "rs_body (insert_header n v r) = rs_body r"
  "rs_headers (insert_header n v r) = (rs_headers r)(n \<mapsto> v)"
  by (simp_all add: insert_header_def)

lemma response_new_sel [simp]:
  "rs_status (response_new b) = 200" "rs_body (response_new b) = b"
  "rs_headers (response_new b) = (\<lambda>_. None)"
  by (simp_all add: response_new_def)

record app_error =
  ae_status :: nat
  ae_message :: rstr

type_synonym inflight_result = "app_error + cache_entry"
type_synonym http_result = "app_error + http_response"

section \<open>Object store and request data\<close>

record object_meta =
  om_size :: u64

type_synonym get_handle = nat
type_synonym upload = nat

text \<open>What \<open>stream.next().await\<close> yields: an error (with its message) or a chunk.\<close>

type_synonym body_item = "rstr + bytes"

text \<open>
  Library calls that are functions: \<open>mime_guess::from_path(_).first()\<close> with its essence,
  \<open>infer::get(_).mime_type()\<close>, \<open>HeaderValue::from_str\<close>, \<open>from_static\<close> and \<open>to_str\<close>, and the
  conversion of a path into an \<open>object_store::path::Path\<close>. \<open>route_layer_covers_405\<close> says whether a
  \<open>route_layer\<close> also runs for a request whose path has a route but whose method has no handler; axum's
  documentation leaves it open.
\<close>

record http_libs =
  mime_from_path :: "rstr \<Rightarrow> rstr option"
  infer_mime :: "bytes \<Rightarrow> rstr option"
  hv_from_str :: "rstr \<Rightarrow> header_value option"
  hv_from_static :: "rstr \<Rightarrow> header_value"
  hv_to_str :: "header_value \<Rightarrow> rstr option"
  path_into :: "rstr \<Rightarrow> location"
  route_layer_covers_405 :: bool

section \<open>Application state\<close>

text \<open>
  The fields of \<open>AppState\<close> that never change; \<open>cache\<close>, \<open>inflight\<close> and \<open>metrics\<close> are the shared
  state the operations act on.
\<close>

record 'vk app_state =
  as_stores :: store_map
  as_auth :: "'vk auth_state"
  as_cache_max_object_bytes :: u64

record stats_response =
  st_requests_total :: u64
  st_auth_fail_total :: u64
  st_cache_hit_total :: u64
  st_cache_miss_total :: u64
  st_upstream_ok_total :: u64
  st_upstream_err_total :: u64
  st_cache_entries :: u64
  st_cache_bytes :: u64

section \<open>Programs\<close>

text \<open>
  How a task ends: a handler's result, a JSON result, the 405 axum answers itself, or the end of a
  spawned task.
\<close>

datatype outcome =
    Respond http_result | RespondJson stats_response | MethodNotAllowed | Finished

datatype prog =
    Done outcome
  | CacheGet cache_key "cache_entry option \<Rightarrow> prog"
  | CachePut cache_key bytes "rstr option" prog
  | CacheStats "cache_stats \<Rightarrow> prog"
  | Acquire cache_key "permit \<Rightarrow> prog"
  | SetResult eid inflight_result prog
  | Release cache_key eid prog
  | Released prog
  | Notified eid prog
  | AwaitNotified eid prog
  | ReadResult eid "inflight_result option \<Rightarrow> prog"
  | StoreHead store_ref location "store_error + object_meta \<Rightarrow> prog"
  | StoreGet store_ref location "store_error + get_handle \<Rightarrow> prog"
  | ReadBytes get_handle "store_error + bytes \<Rightarrow> prog"
  | PutMultipart store_ref location "store_error + upload \<Rightarrow> prog"
  | AwaitBody prog
  | WritePut upload bytes prog
  | WriteFinish upload "store_error + unit \<Rightarrow> prog"
  | WriteAbort upload prog
  | Emit metric_event prog
  | Gather "metric_family list \<Rightarrow> prog"
  | Now "nat \<Rightarrow> prog"
  | UnixTime "int \<Rightarrow> prog"
  | Spawn prog prog

text \<open>
  \<open>InflightGuard::complete\<close>: store the result, release the entry, set \<open>released\<close>; then the guard
  is dropped, which does nothing.
\<close>

definition complete :: "inflight_guard \<Rightarrow> inflight_result \<Rightarrow> prog \<Rightarrow> prog" where
  "complete guard result k =
     SetResult (ig_entry guard) result (Release (ig_key guard) (ig_entry guard) (Released k))"

text \<open>\<open>InflightEntry::wait\<close>.\<close>

definition wait :: "eid \<Rightarrow> (inflight_result option \<Rightarrow> prog) \<Rightarrow> prog" where
  "wait entry k = Notified entry (AwaitNotified entry (ReadResult entry k))"

text \<open>The task \<open>Drop for InflightGuard\<close> spawns.\<close>

definition release_task :: "cache_key \<Rightarrow> eid \<Rightarrow> prog" where
  "release_task key entry = Release key entry (Done Finished)"

end
