(* ===== verification/Handlers.thy ===== *)
theory Handlers
  imports Program
begin

text \<open>
  Model of \<open>src/handler.rs\<close>: errors, responses, and the handlers as programs. Spans and log lines
  are left out (they are output of the tracing library and no control flow depends on them), and
  with them \<open>response_bytes\<close> and the start instants, which only spans read.
\<close>

section \<open>Errors\<close>

definition bad_request :: "rstr \<Rightarrow> app_error" where
  "bad_request message = \<lparr>ae_status = 400, ae_message = message\<rparr>"

definition unauthorized :: "rstr \<Rightarrow> app_error" where
  "unauthorized message = \<lparr>ae_status = 401, ae_message = message\<rparr>"

definition not_found :: "rstr \<Rightarrow> app_error" where
  "not_found message = \<lparr>ae_status = 404, ae_message = message\<rparr>"

fun from_store :: "store_error \<Rightarrow> app_error" where
  "from_store SE_NotFound = not_found (lit ''object not found'')"
| "from_store _ = \<lparr>ae_status = 502, ae_message = lit ''upstream error''\<rparr>"

definition app_error_into_response :: "app_error \<Rightarrow> http_response" where
  "app_error_into_response e = (response_new (TextBody (ae_message e)))\<lparr>rs_status := ae_status e\<rparr>"

section \<open>Responses\<close>

definition with_content_type :: "http_libs \<Rightarrow> rstr option \<Rightarrow> http_response \<Rightarrow> http_response" where
  "with_content_type x content_type r =
     (case content_type of
        None \<Rightarrow> r
      | Some ct \<Rightarrow>
          (case hv_from_str x ct of None \<Rightarrow> r | Some value \<Rightarrow> insert_header CONTENT_TYPE value r))"

definition with_content_length :: "http_libs \<Rightarrow> nat \<Rightarrow> http_response \<Rightarrow> http_response" where
  "with_content_length x len r =
     insert_header CONTENT_LENGTH
       (case hv_from_str x (dec len) of None \<Rightarrow> hv_from_static x (lit ''0'') | Some value \<Rightarrow> value) r"

definition build_response :: "http_libs \<Rightarrow> cache_entry \<Rightarrow> bool \<Rightarrow> http_response" where
  "build_response x entry cache_hit =
     (let r = with_content_type x (ce_content_type entry) (response_new (BytesBody (ce_bytes entry)));
          cache_status = (if cache_hit then lit ''hit=1'' else lit ''hit=0'');
          r = (case hv_from_str x cache_status of
                 None \<Rightarrow> r | Some value \<Rightarrow> insert_header CG_STATUS value r)
      in with_content_length x (length (ce_bytes entry)) r)"

definition build_head_response :: "http_libs \<Rightarrow> cache_entry \<Rightarrow> http_response" where
  "build_head_response x entry =
     with_content_length x (length (ce_bytes entry))
       (with_content_type x (ce_content_type entry) (response_new EmptyBody))"

definition build_head_response_with_meta :: "http_libs \<Rightarrow> u64 \<Rightarrow> rstr option \<Rightarrow> http_response" where
  "build_head_response_with_meta x len content_type =
     with_content_length x (unat len) (with_content_type x content_type (response_new EmptyBody))"

definition build_put_response :: http_response where
  "build_put_response = response_new EmptyBody"

section \<open>Pure helpers\<close>

definition resolve_content_type :: "http_libs \<Rightarrow> rstr \<Rightarrow> bytes \<Rightarrow> rstr" where
  "resolve_content_type x path bs =
     (case mime_from_path x path of
        Some mime \<Rightarrow> mime
      | None \<Rightarrow>
          (case infer_mime x bs of
             Some kind \<Rightarrow> kind
           | None \<Rightarrow> lit ''application/octet-stream''))"

definition content_type_from_headers :: "http_libs \<Rightarrow> header_map \<Rightarrow> rstr \<Rightarrow> rstr option" where
  "content_type_from_headers x headers path =
     (case headers CONTENT_TYPE of
        Some value \<Rightarrow>
          (case hv_to_str x value of
             Some s \<Rightarrow> if s \<noteq> [] then Some s else mime_from_path x path
           | None \<Rightarrow> mime_from_path x path)
      | None \<Rightarrow> mime_from_path x path)"

definition parse_prefetch_value :: "rstr \<Rightarrow> bool option" where
  "parse_prefetch_value value =
     (if value = lit ''1'' then Some True
      else if value = lit ''0'' then Some False
      else if eq_ignore_ascii_case value (lit ''true'') then Some True
      else if eq_ignore_ascii_case value (lit ''false'') then Some False
      else None)"

definition parse_prefetch :: "(rstr \<Rightarrow> rstr option) \<Rightarrow> bool" where
  "parse_prefetch params =
     (case params (lit ''prefetch'') of
        None \<Rightarrow> False
      | Some value \<Rightarrow> (case parse_prefetch_value value of None \<Rightarrow> False | Some b \<Rightarrow> b))"

text \<open>The check at the top of the three object handlers.\<close>

definition invalid_object_path :: "rstr \<Rightarrow> bool" where
  "invalid_object_path path \<longleftrightarrow>
     path = [] \<or> contains (lit ''..'') path \<or> starts_with (lit ''/'') path"

text \<open>
  \<open>start.elapsed().as_millis() as u64\<close> for instants in nanoseconds: an earlier \<open>now\<close> gives zero,
  and the cast keeps the low 64 bits of the \<open>u128\<close>.
\<close>

definition elapsed_ms :: "nat \<Rightarrow> nat \<Rightarrow> u64" where
  "elapsed_ms start now = ucast (of_nat ((now - start) div 1000000) :: u128)"

definition status_label :: "http_result \<Rightarrow> rstr" where
  "status_label result = (case result of Inr r \<Rightarrow> dec (rs_status r) | Inl e \<Rightarrow> dec (ae_status e))"

text \<open>The end of the three object handlers: count the request, return its result.\<close>

definition finish :: "rstr \<Rightarrow> http_result \<Rightarrow> prog" where
  "finish method result = Emit (inc_requests method (status_label result)) (Done (Respond result))"

text \<open>The metrics of a failed and of a successful upstream call begun at \<open>start\<close>.\<close>

definition upstream_failed :: "rstr \<Rightarrow> nat \<Rightarrow> store_error \<Rightarrow> prog \<Rightarrow> prog" where
  "upstream_failed method start err k =
     Now (\<lambda>now. Emit (observe_upstream_latency_ms method (elapsed_ms start now))
       (Emit (inc_upstream_err method (from_store_error err)) k))"

definition upstream_succeeded :: "rstr \<Rightarrow> nat \<Rightarrow> prog \<Rightarrow> prog" where
  "upstream_succeeded method start k =
     Now (\<lambda>now. Emit (observe_upstream_latency_ms method (elapsed_ms start now))
       (Emit (inc_upstream_ok method) k))"

section \<open>Fetching\<close>

definition fetch_and_cache_entry ::
    "http_libs \<Rightarrow> 'vk app_state \<Rightarrow> cache_key \<Rightarrow> rstr \<Rightarrow> rstr \<Rightarrow> rstr
      \<Rightarrow> (inflight_result \<Rightarrow> prog) \<Rightarrow> prog" where
  "fetch_and_cache_entry x st key bucket_id path method k =
     (case as_stores st bucket_id of
        None \<Rightarrow> k (Inl (not_found (lit ''unknown bucket'')))
      | Some store \<Rightarrow>
          let location = path_into x path in
          Now (\<lambda>start. StoreGet store location (\<lambda>got. case got of
            Inl err \<Rightarrow> upstream_failed method start err (k (Inl (from_store err)))
          | Inr result \<Rightarrow> ReadBytes result (\<lambda>read. case read of
              Inl err \<Rightarrow> upstream_failed method start err (k (Inl (from_store err)))
            | Inr bs \<Rightarrow> upstream_succeeded method start
                (let content_type = Some (resolve_content_type x path bs);
                     cap_bytes = unat (as_cache_max_object_bytes st);
                     return = k (Inr (cache_entry_new bs content_type))
                 in if cap_bytes = 0 \<or> cap_bytes < length bs then return
                    else CachePut key bs content_type return)))))"

section \<open>\<open>GET\<close>\<close>

text \<open>The answer with a fetched entry: \<open>result.map(|entry| build_response(entry, false))\<close>.\<close>

definition respond_fetched :: "http_libs \<Rightarrow> inflight_result \<Rightarrow> prog" where
  "respond_fetched x result =
     finish (lit ''GET'') (result_map (\<lambda>entry. build_response x entry False) result)"

definition get_object_leader ::
    "http_libs \<Rightarrow> 'vk app_state \<Rightarrow> rstr \<Rightarrow> rstr \<Rightarrow> inflight_guard \<Rightarrow> prog" where
  "get_object_leader x st bucket_id path guard =
     fetch_and_cache_entry x st (cache_key_new bucket_id path) bucket_id path (lit ''GET'')
       (\<lambda>result. complete guard result (respond_fetched x result))"

text \<open>What a follower does with what it waited for.\<close>

definition get_object_waited ::
    "http_libs \<Rightarrow> 'vk app_state \<Rightarrow> rstr \<Rightarrow> rstr \<Rightarrow> inflight_result option \<Rightarrow> prog" where
  "get_object_waited x st bucket_id path waited =
     (let method = lit ''GET''; key = cache_key_new bucket_id path in
      case waited of
        Some (Inr leader_entry) \<Rightarrow> CacheGet key (\<lambda>again. case again of
          Some cached_entry \<Rightarrow> finish method (Inr (build_response x cached_entry True))
        | None \<Rightarrow> finish method (Inr (build_response x leader_entry False)))
      | Some (Inl err) \<Rightarrow> finish method (Inl err)
      | None \<Rightarrow>
          fetch_and_cache_entry x st key bucket_id path method (respond_fetched x))"

definition get_object :: "http_libs \<Rightarrow> 'vk app_state \<Rightarrow> rstr \<Rightarrow> rstr \<Rightarrow> prog" where
  "get_object x st bucket_id path =
     (let method = lit ''GET'';
          key = cache_key_new bucket_id path
      in
      if invalid_object_path path then finish method (Inl (bad_request (lit ''invalid object path'')))
      else CacheGet key (\<lambda>cached. case cached of
        Some entry \<Rightarrow>
          Emit (inc_cache_hit method) (finish method (Inr (build_response x entry True)))
      | None \<Rightarrow>
          Emit (inc_cache_miss method) (Acquire key (\<lambda>permit. case permit of
            Leader guard \<Rightarrow> get_object_leader x st bucket_id path guard
          | Follower entry \<Rightarrow> wait entry (get_object_waited x st bucket_id path)))))"

section \<open>\<open>HEAD\<close>\<close>

text \<open>The task \<open>spawn_head_prefetch\<close> spawns.\<close>

definition head_prefetch ::
    "http_libs \<Rightarrow> 'vk app_state \<Rightarrow> cache_key \<Rightarrow> rstr \<Rightarrow> rstr \<Rightarrow> prog" where
  "head_prefetch x st key bucket_id path =
     Acquire key (\<lambda>permit. case permit of
       Leader guard \<Rightarrow>
         fetch_and_cache_entry x st key bucket_id path (lit ''HEAD'') (\<lambda>result.
           complete guard result (Done Finished))
     | Follower entry \<Rightarrow> Done Finished)"

text \<open>
  The two early returns (\<open>?\<close> on an unknown bucket and \<open>return Err\<close> after a failed upstream
  \<open>HEAD\<close>) leave the function, not the labelled block, so they do not reach \<open>finish\<close>.
\<close>

definition head_object ::
    "http_libs \<Rightarrow> 'vk app_state \<Rightarrow> rstr \<Rightarrow> rstr \<Rightarrow> (rstr \<Rightarrow> rstr option) \<Rightarrow> prog" where
  "head_object x st bucket_id path params =
     (let method = lit ''HEAD'';
          key = cache_key_new bucket_id path;
          prefetch_enabled = parse_prefetch params
      in
      if invalid_object_path path then finish method (Inl (bad_request (lit ''invalid object path'')))
      else CacheGet key (\<lambda>cached. case cached of
        Some entry \<Rightarrow>
          Emit (inc_cache_hit method) (finish method (Inr (build_head_response x entry)))
      | None \<Rightarrow>
          Emit (inc_cache_miss method)
            (case as_stores st bucket_id of
               None \<Rightarrow> Done (Respond (Inl (not_found (lit ''unknown bucket''))))
             | Some store \<Rightarrow>
                 let location = path_into x path in
                 Now (\<lambda>head_start. StoreHead store location (\<lambda>head. case head of
                   Inl err \<Rightarrow>
                     upstream_failed method head_start err (Done (Respond (Inl (from_store err))))
                 | Inr meta \<Rightarrow> upstream_succeeded method head_start
                     (let content_type = mime_from_path x path;
                          answer = finish method
                            (Inr (build_head_response_with_meta x (om_size meta) content_type))
                      in if prefetch_enabled
                         then Spawn (head_prefetch x st key bucket_id path) answer
                         else answer))))))"

section \<open>\<open>PUT\<close>\<close>

text \<open>The copy of the payload kept for the cache: one chunk, given the cap.\<close>

definition buffer_chunk :: "nat \<Rightarrow> bytes \<Rightarrow> bytes \<times> bool \<Rightarrow> bytes \<times> bool" where
  "buffer_chunk cap_bytes chunk bc =
     (let (buffer, capped) = bc in
      if capped then (buffer, capped)
      else
        (let remaining = usize_saturating_sub cap_bytes (length buffer)
         in if remaining = 0 then (buffer, True)
            else if length chunk \<le> remaining then (buffer @ chunk, False)
            else (buffer @ take remaining chunk, True)))"

fun put_chunks ::
    "upload \<Rightarrow> nat \<Rightarrow> prog \<Rightarrow> (bytes \<times> bool \<Rightarrow> prog) \<Rightarrow> body_item list \<Rightarrow> bytes \<times> bool \<Rightarrow> prog" where
  "put_chunks write cap_bytes failed k [] bc = AwaitBody (k bc)"
| "put_chunks write cap_bytes failed k (Inl err # stream) bc = AwaitBody (WriteAbort write failed)"
| "put_chunks write cap_bytes failed k (Inr chunk # stream) bc =
     AwaitBody (WritePut write chunk
       (put_chunks write cap_bytes failed k stream (buffer_chunk cap_bytes chunk bc)))"

definition put_object ::
    "http_libs \<Rightarrow> 'vk app_state \<Rightarrow> rstr \<Rightarrow> rstr \<Rightarrow> header_map \<Rightarrow> body_item list \<Rightarrow> prog" where
  "put_object x st bucket_id path headers stream =
     (let method = lit ''PUT'';
          key = cache_key_new bucket_id path
      in
      if invalid_object_path path then finish method (Inl (bad_request (lit ''invalid object path'')))
      else (case as_stores st bucket_id of
        None \<Rightarrow> Done (Respond (Inl (not_found (lit ''unknown bucket''))))
      | Some store \<Rightarrow>
          let location = path_into x path in
          StoreHead store location (\<lambda>existing.
          Now (\<lambda>upload_start. PutMultipart store location (\<lambda>init. case init of
            Inl err \<Rightarrow> upstream_failed method upload_start err (finish method (Inl (from_store err)))
          | Inr write \<Rightarrow>
              let cap_bytes = unat (as_cache_max_object_bytes st) in
              put_chunks write cap_bytes
                (finish method (Inl (bad_request (lit ''invalid request body''))))
                (\<lambda>(buffer, capped). WriteFinish write (\<lambda>finished. case finished of
                   Inl err \<Rightarrow>
                     upstream_failed method upload_start err (finish method (Inl (from_store err)))
                 | Inr _ \<Rightarrow> upstream_succeeded method upload_start
                     (let answer = finish method (Inr build_put_response)
                      in if \<not> capped
                         then CachePut key buffer (content_type_from_headers x headers path) answer
                         else answer)))
                stream ([], cap_bytes = 0))))))"

section \<open>The other endpoints\<close>

definition stats_handler :: prog where
  "stats_handler =
     Gather (\<lambda>families. CacheStats (\<lambda>cache_stats.
       let s = snapshot families in
       Done (RespondJson
         \<lparr>st_requests_total = snap_requests_total s,
          st_auth_fail_total = snap_auth_fail_total s,
          st_cache_hit_total = snap_cache_hit_total s,
          st_cache_miss_total = snap_cache_miss_total s,
          st_upstream_ok_total = snap_upstream_ok_total s,
          st_upstream_err_total = snap_upstream_err_total s,
          st_cache_entries = cs_inserts cache_stats,
          st_cache_bytes = 0\<rparr>)))"

definition health :: prog where
  "health = Done (Respond (Inr (response_new (TextBody (lit ''OK'')))))"

definition metrics_handler ::
    "http_libs \<Rightarrow> (metric_family list \<Rightarrow> bytes option) \<Rightarrow> (bytes \<Rightarrow> rstr option) \<Rightarrow> prog" where
  "metrics_handler x encode from_utf8 =
     CacheStats (\<lambda>cache_stats. Gather (\<lambda>families.
       Done (Respond (Inr (insert_header CONTENT_TYPE
         (hv_from_static x (lit ''text/plain; version=0.0.4''))
         (response_new (TextBody (render_prometheus encode from_utf8 families))))))))"

end
