(* ===== verification/Server.thy ===== *)
theory Server
  imports Handlers
begin

text \<open>
  Model of the request path in front of the handlers: \<open>parse_bearer_token\<close> and
  \<open>auth_middleware\<close> of \<open>src/handler.rs\<close>, and the router, the span operation label and the client
  host of \<open>src/main.rs\<close>. Axum's extraction of the path and the query, and its matching of the URL
  against the routes, are part of the request record.
\<close>

section \<open>Requests\<close>

text \<open>
  \<open>PathParams\<close> is the pair of bucket id and path. \<open>None\<close> for the path or the query is an extractor's rejection; \<open>rq_matched_path\<close> is the route
  pattern the URL matched.
\<close>

type_synonym path_params = "rstr \<times> rstr"

record request =
  rq_matched_path :: "rstr option"
  rq_path_params :: "path_params option"
  rq_query :: "(rstr \<Rightarrow> rstr option) option"
  rq_method :: rstr
  rq_headers :: header_map
  rq_body :: "body_item list"

section \<open>Authentication\<close>

definition parse_bearer_token :: "http_libs \<Rightarrow> header_map \<Rightarrow> rstr option" where
  "parse_bearer_token x headers =
     (case headers AUTHORIZATION of
        None \<Rightarrow> None
      | Some v \<Rightarrow>
          (case hv_to_str x v of
             None \<Rightarrow> None
           | Some value \<Rightarrow>
               (case split_whitespace value of
                  scheme # token # _ \<Rightarrow>
                    if eq_ignore_ascii_case scheme (lit ''bearer'') \<and> token \<noteq> [] then Some token
                    else None
                | _ \<Rightarrow> None)))"

text \<open>
  The decision of \<open>auth_middleware\<close>: the two mutable variables \<open>auth_method\<close> and \<open>last_error\<close>
  are threaded as a pair.
\<close>

definition try_bearer ::
    "'vk auth_state \<Rightarrow> rstr option \<Rightarrow> auth_method option \<times> auth_error option" where
  "try_bearer st bearer =
     (case bearer of
        None \<Rightarrow> (None, None)
      | Some token \<Rightarrow>
          (case verify_bearer st token of Inr _ \<Rightarrow> (Some Bearer, None) | Inl err \<Rightarrow> (None, Some err)))"

definition authenticate ::
    "'vk auth_libs \<Rightarrow> 'vk auth_state \<Rightarrow> int \<Rightarrow> rstr \<Rightarrow> rstr \<Rightarrow> rstr \<Rightarrow> rstr option \<Rightarrow> rstr option
      \<Rightarrow> auth_error + auth_method" where
  "authenticate a st now method bucket_id path bearer sig =
     (let (auth_method, last_error) = try_bearer st bearer;
          (auth_method, last_error) =
            (if auth_method = None
             then (case sig of
                     Some s \<Rightarrow>
                       (case verify a st now method bucket_id path s of
                          Inr _ \<Rightarrow> (Some Presign, last_error)
                        | Inl err \<Rightarrow> (None, Some err))
                   | None \<Rightarrow>
                       if last_error = None then (None, Some MissingAuth)
                       else (None, last_error))
             else (auth_method, last_error))
      in case auth_method of
           Some m \<Rightarrow> Inr m
         | None \<Rightarrow> Inl (case last_error of Some e \<Rightarrow> e | None \<Rightarrow> MissingAuth))"

text \<open>
  The clock is read up front; \<open>verify\<close> reads it only when it gets to the expiry, which nothing but
  that comparison can tell.
\<close>

definition auth_middleware ::
    "http_libs \<Rightarrow> 'vk auth_libs \<Rightarrow> 'vk app_state \<Rightarrow> request \<Rightarrow> (auth_context \<Rightarrow> prog) \<Rightarrow> prog" where
  "auth_middleware x a st request next =
     (case rq_path_params request of
        None \<Rightarrow> Done (Respond (Inl (bad_request (lit ''invalid path''))))
      | Some (bucket_id, path) \<Rightarrow>
          (case rq_query request of
             None \<Rightarrow> Done (Respond (Inl (bad_request (lit ''invalid query''))))
           | Some params \<Rightarrow>
               (let method = rq_method request;
                    bearer = parse_bearer_token x (rq_headers request)
                in UnixTime (\<lambda>now.
                  case authenticate a (as_auth st) now method bucket_id path bearer
                         (params (lit ''sig'')) of
                    Inr auth_method \<Rightarrow> next \<lparr>ac_method = auth_method\<rparr>
                  | Inl error \<Rightarrow>
                      Emit (inc_auth_fail method)
                        (Done (Respond (Inl (unauthorized (lit ''invalid auth'')))))))))"

section \<open>Routes\<close>

text \<open>
  \<open>run_server\<close>: the object route is behind the middleware, the three others are not. Axum answers
  everything else itself (\<open>None\<close>): no route, or no handler for the method. \<open>get(h)\<close> also answers
  \<open>HEAD\<close> where no \<open>head\<close> handler is set. On the object route the middleware has extracted path and
  query when it calls the handler, so only a method without a handler is left for axum's 405.
\<close>

abbreviation object_route :: rstr where
  "object_route \<equiv> lit ''/{bucket_id}/{*path}''"

definition object_handler ::
    "http_libs \<Rightarrow> 'vk app_state \<Rightarrow> request \<Rightarrow> prog option" where
  "object_handler x st request =
     (case (rq_path_params request, rq_query request) of
        (Some (bucket_id, path), Some params) \<Rightarrow>
          if rq_method request = lit ''GET'' then Some (get_object x st bucket_id path)
          else if rq_method request = lit ''HEAD'' then Some (head_object x st bucket_id path params)
          else if rq_method request = lit ''PUT''
          then Some (put_object x st bucket_id path (rq_headers request) (rq_body request))
          else None
      | _ \<Rightarrow> None)"

definition protected_methods :: "rstr set" where
  "protected_methods = {lit ''GET'', lit ''HEAD'', lit ''PUT''}"

definition run_server ::
    "http_libs \<Rightarrow> 'vk auth_libs \<Rightarrow> (metric_family list \<Rightarrow> bytes option) \<Rightarrow> (bytes \<Rightarrow> rstr option)
      \<Rightarrow> 'vk app_state \<Rightarrow> request \<Rightarrow> prog option" where
  "run_server x a encode from_utf8 st request =
     (let method = rq_method request; is_get = (method = lit ''GET'' \<or> method = lit ''HEAD'') in
      case rq_matched_path request of
        None \<Rightarrow> None
      | Some route \<Rightarrow>
          if route = lit ''/stats'' then (if is_get then Some stats_handler else None)
          else if route = lit ''/metrics''
          then (if is_get then Some (metrics_handler x encode from_utf8) else None)
          else if route = lit ''/health'' then (if is_get then Some health else None)
          else if route = object_route \<and> (method \<in> protected_methods \<or> route_layer_covers_405 x)
          then Some (auth_middleware x a st request
                 (\<lambda>auth. case object_handler x st request of
                    Some p \<Rightarrow> p
                  | None \<Rightarrow> Done MethodNotAllowed))
          else None)"

text \<open>The \<open>sentry.op\<close> label of a request's span.\<close>

definition span_op :: "rstr option \<Rightarrow> rstr \<Rightarrow> rstr" where
  "span_op matched_path method =
     (case matched_path of
        None \<Rightarrow> lit ''http.r.unknown''
      | Some p \<Rightarrow>
          if p = lit ''/metrics'' then lit ''http.r.metrics''
          else if p = lit ''/stats'' then lit ''http.r.stats''
          else if p = lit ''/health'' then lit ''http.r.health''
          else if p = object_route then
            (if method = lit ''HEAD'' then lit ''http.r.head_object''
             else lit ''http.r.get_object'')
          else lit ''http.r.unknown'')"

text \<open>The first entry of \<open>x-forwarded-for\<close>; \<open>str::split\<close> always yields one.\<close>

definition client_host :: "http_libs \<Rightarrow> header_map \<Rightarrow> rstr option" where
  "client_host x headers =
     (case headers (lit ''x-forwarded-for'') of
        None \<Rightarrow> None
      | Some v \<Rightarrow>
          (case hv_to_str x v of
             None \<Rightarrow> None
           | Some value \<Rightarrow>
               (case split_char 44 value of [] \<Rightarrow> None | first # _ \<Rightarrow> Some (trim first))))"

text \<open>The span of a request; the client's address is what axum's \<open>ConnectInfo\<close> holds, if anything.\<close>

record 'a request_span =
  sp_method :: rstr
  sp_matched_path :: "rstr option"
  sp_client_host :: "rstr option"
  sp_client_addr :: "'a option"
  sp_sentry_op :: rstr

definition make_span :: "http_libs \<Rightarrow> 'a option \<Rightarrow> request \<Rightarrow> 'a request_span" where
  "make_span x connect_info request =
     \<lparr>sp_method = rq_method request, sp_matched_path = rq_matched_path request,
      sp_client_host = client_host x (rq_headers request), sp_client_addr = connect_info,
      sp_sentry_op = span_op (rq_matched_path request) (rq_method request)\<rparr>"

section \<open>The decision, declaratively\<close>

lemma try_bearer_cases:
  "try_bearer st bearer =
     (if bearer = None then (None, None)
      else if bearer = bearer_token st then (Some Bearer, None)
      else (None, Some (if bearer_token st = None then BearerNotConfigured else InvalidBearer)))"
  by (cases bearer; cases "bearer_token st")
     (auto simp: try_bearer_def verify_bearer_def)

lemma authenticate_Bearer:
  "authenticate a st now method bucket_id path bearer sig = Inr Bearer \<longleftrightarrow>
     bearer \<noteq> None \<and> bearer = bearer_token st"
  by (auto simp: authenticate_def try_bearer_cases Let_def split: option.splits sum.splits if_splits)

lemma authenticate_Presign:
  "authenticate a st now method bucket_id path bearer sig = Inr Presign \<longleftrightarrow>
     \<not> (bearer \<noteq> None \<and> bearer = bearer_token st)
     \<and> (\<exists>s. sig = Some s \<and> verify a st now method bucket_id path s = Inr ())"
  by (auto simp: authenticate_def try_bearer_cases Let_def split: option.splits sum.splits if_splits)

lemma parse_bearer_token_split:
  "parse_bearer_token x headers = Some token \<Longrightarrow>
     \<exists>v value scheme rest. headers AUTHORIZATION = Some v \<and> hv_to_str x v = Some value
       \<and> split_whitespace value = scheme # token # rest
       \<and> eq_ignore_ascii_case scheme (lit ''bearer'')"
  by (auto simp: parse_bearer_token_def split: option.splits list.splits if_splits)

lemma parse_bearer_token_word:
  assumes "parse_bearer_token x headers = Some token"
  shows "token \<noteq> [] \<and> (\<forall>c \<in> set token. \<not> is_whitespace c)"
proof -
  from parse_bearer_token_split [OF assms] obtain str scheme rest where
    "split_whitespace str = scheme # token # rest" by blast
  then have "token \<in> set (split_whitespace str)" by simp
  then show ?thesis by (rule split_whitespace_word)
qed

end
