(* ===== verification/Semantics.thy ===== *)
theory Semantics
  imports Server
begin

text \<open>
  The meaning of the operations of \<open>Program\<close>: a world (cache, outside, in-flight table, guards held
  by tasks, metric calls), one atomic step of a task (\<open>exec_op\<close>), and the run of one task that
  nobody interferes with (\<open>run\<close>). Theory \<open>Concurrency\<close> interleaves tasks with the same \<open>exec_op\<close>.
\<close>

section \<open>The outside\<close>

text \<open>
  The library calls that act on state outside the program: Foyer, the object store, the clocks
  (nanoseconds of \<open>Instant\<close>, seconds of the Unix clock) and the metric registry's \<open>gather\<close>.
  Their state is \<open>'h\<close> for Foyer and \<open>'u\<close> for the rest.
\<close>

record ('h, 'u) externals =
  ex_hybrid :: "'h hybrid_ops"
  up_head :: "store_ref \<Rightarrow> location \<Rightarrow> 'u \<Rightarrow> (store_error + object_meta) \<times> 'u"
  up_get :: "store_ref \<Rightarrow> location \<Rightarrow> 'u \<Rightarrow> (store_error + get_handle) \<times> 'u"
  up_bytes :: "get_handle \<Rightarrow> 'u \<Rightarrow> (store_error + bytes) \<times> 'u"
  up_put_multipart :: "store_ref \<Rightarrow> location \<Rightarrow> 'u \<Rightarrow> (store_error + upload) \<times> 'u"
  up_write :: "upload \<Rightarrow> bytes \<Rightarrow> 'u \<Rightarrow> 'u"
  up_finish :: "upload \<Rightarrow> 'u \<Rightarrow> (store_error + unit) \<times> 'u"
  up_abort :: "upload \<Rightarrow> 'u \<Rightarrow> 'u"
  clock_instant :: "'u \<Rightarrow> nat \<times> 'u"
  clock_unix :: "'u \<Rightarrow> int \<times> 'u"
  reg_gather :: "metric_event list \<Rightarrow> metric_family list"

record ('h, 'u) world =
  w_cache :: "'h foyer_cache"
  w_up :: 'u
  w_inflight :: "inflight_result inflight"
  w_held :: "tid \<Rightarrow> inflight_guard option"
  w_metrics :: "metric_event list"

section \<open>One operation\<close>

text \<open>
  \<open>exec_op x t p w\<close> is the next step of task \<open>t\<close> with program \<open>p\<close>: the rest of the program, the
  task it spawned if any, and the new world; \<open>None\<close> if the task has ended or waits for a
  notification that has not come.
\<close>

type_synonym ('h, 'u) step = "(prog \<times> prog option \<times> ('h, 'u) world) option"

definition ask ::
    "(('h, 'u) world \<Rightarrow> 'u \<Rightarrow> 'a \<times> 'u) \<Rightarrow> ('a \<Rightarrow> prog) \<Rightarrow> ('h, 'u) world \<Rightarrow> ('h, 'u) step" where
  "ask f k w = (let (r, u) = f w (w_up w) in Some (k r, None, w\<lparr>w_up := u\<rparr>))"

text \<open>Dropping a guard spawns the release, unless the guard was marked released.\<close>

definition drop_guard :: "inflight_guard \<Rightarrow> prog option" where
  "drop_guard g = map_option (\<lambda>(key, entry). release_task key entry) (guard_drop g)"

lemma drop_guard_released [simp]: "drop_guard (g\<lparr>ig_released := True\<rparr>) = None"
  by (simp add: drop_guard_def guard_drop_def)

fun exec_op :: "('h, 'u) externals \<Rightarrow> tid \<Rightarrow> prog \<Rightarrow> ('h, 'u) world \<Rightarrow> ('h, 'u) step" where
  "exec_op x t (Done r) w = None"
| "exec_op x t (CacheGet key k) w =
     (let (r, c) = foyer_get (ex_hybrid x) key (w_cache w)
      in Some (k r, None, w\<lparr>w_cache := c\<rparr>))"
| "exec_op x t (CachePut key bs ct k) w =
     Some (k, None, w\<lparr>w_cache := foyer_put (ex_hybrid x) key bs ct (w_cache w)\<rparr>)"
| "exec_op x t (CacheStats k) w = Some (k (foyer_stats (w_cache w)), None, w)"
| "exec_op x t (Acquire key k) w =
     (case acquire key (w_inflight w) of
        (Leader g, i) \<Rightarrow>
          Some (k (Leader g), None, w\<lparr>w_inflight := i, w_held := (w_held w)(t \<mapsto> g)\<rparr>)
      | (Follower e, i) \<Rightarrow> Some (k (Follower e), None, w\<lparr>w_inflight := i\<rparr>))"
| "exec_op x t (SetResult e r k) w =
     Some (k, None, w\<lparr>w_inflight := set_result e r (w_inflight w)\<rparr>)"
| "exec_op x t (Release key e k) w =
     Some (k, None, w\<lparr>w_inflight := release key e (w_inflight w)\<rparr>)"
| "exec_op x t (Released k) w =
     (case w_held w t of
        None \<Rightarrow> Some (k, None, w)
      | Some g \<Rightarrow>
          Some (k, drop_guard (g\<lparr>ig_released := True\<rparr>), w\<lparr>w_held := (w_held w)(t := None)\<rparr>))"
| "exec_op x t (Notified e k) w =
     Some (k, None, w\<lparr>w_inflight := entry_notified t e (w_inflight w)\<rparr>)"
| "exec_op x t (AwaitNotified e k) w =
     (if entry_woken t e (w_inflight w) then Some (k, None, w) else None)"
| "exec_op x t (ReadResult e k) w = Some (k (entry_result e (w_inflight w)), None, w)"
| "exec_op x t (StoreHead s l k) w = ask (\<lambda>_. up_head x s l) k w"
| "exec_op x t (StoreGet s l k) w = ask (\<lambda>_. up_get x s l) k w"
| "exec_op x t (ReadBytes h k) w = ask (\<lambda>_. up_bytes x h) k w"
| "exec_op x t (PutMultipart s l k) w = ask (\<lambda>_. up_put_multipart x s l) k w"
| "exec_op x t (AwaitBody k) w = Some (k, None, w)"
| "exec_op x t (WritePut h chunk k) w = Some (k, None, w\<lparr>w_up := up_write x h chunk (w_up w)\<rparr>)"
| "exec_op x t (WriteFinish h k) w = ask (\<lambda>_. up_finish x h) k w"
| "exec_op x t (WriteAbort h k) w = Some (k, None, w\<lparr>w_up := up_abort x h (w_up w)\<rparr>)"
| "exec_op x t (Emit ev k) w = Some (k, None, w\<lparr>w_metrics := w_metrics w @ [ev]\<rparr>)"
| "exec_op x t (Gather k) w = Some (k (reg_gather x (w_metrics w)), None, w)"
| "exec_op x t (Now k) w = ask (\<lambda>_. clock_instant x) k w"
| "exec_op x t (UnixTime k) w = ask (\<lambda>_. clock_unix x) k w"
| "exec_op x t (Spawn q k) w = Some (k, Some q, w)"

section \<open>A run without interference\<close>

text \<open>The immediate continuations of a program; stepping moves to one of them.\<close>

inductive sub_prog :: "prog \<Rightarrow> prog \<Rightarrow> bool" where
  "sub_prog (k r) (CacheGet key k)"
| "sub_prog k (CachePut key bs ct k)"
| "sub_prog (k' s) (CacheStats k')"
| "sub_prog (ka pm) (Acquire key ka)"
| "sub_prog k (SetResult e r k)"
| "sub_prog k (Release key e k)"
| "sub_prog k (Released k)"
| "sub_prog k (Notified e k)"
| "sub_prog k (AwaitNotified e k)"
| "sub_prog (kr res) (ReadResult e kr)"
| "sub_prog (kh m) (StoreHead s l kh)"
| "sub_prog (kg g) (StoreGet s l kg)"
| "sub_prog (kb b) (ReadBytes h kb)"
| "sub_prog (kp u) (PutMultipart s l kp)"
| "sub_prog k (AwaitBody k)"
| "sub_prog k (WritePut h chunk k)"
| "sub_prog (kf f) (WriteFinish h kf)"
| "sub_prog k (WriteAbort h k)"
| "sub_prog k (Emit ev k)"
| "sub_prog (kfam fams) (Gather kfam)"
| "sub_prog (kn n) (Now kn)"
| "sub_prog (ku i) (UnixTime ku)"
| "sub_prog k (Spawn q k)"

lemma wf_sub_prog: "wfp sub_prog"
proof (rule wfpUNIVI)
  fix P :: "prog \<Rightarrow> bool" and p
  assume step: "\<forall>p. (\<forall>q. sub_prog q p \<longrightarrow> P q) \<longrightarrow> P p"
  show "P p"
    by (induction p) (rule step [rule_format], auto elim: sub_prog.cases)+
qed

text \<open>Only a task that is done and one that waits to be woken cannot move.\<close>

lemma exec_op_None:
  "exec_op x t p w = None \<longleftrightarrow>
     (\<exists>r. p = Done r) \<or> (\<exists>e k. p = AwaitNotified e k \<and> \<not> entry_woken t e (w_inflight w))"
  by (cases p) (auto simp: ask_def split: prod.splits permit.splits option.splits)

lemma exec_op_sub: "exec_op x t p w = Some (p', q, w') \<Longrightarrow> sub_prog p' p"
  by (cases p)
     (auto simp: ask_def intro: sub_prog.intros
       split: prod.splits permit.splits if_splits option.splits)

function run ::
    "('h, 'u) externals \<Rightarrow> tid \<Rightarrow> prog \<Rightarrow> ('h, 'u) world \<Rightarrow> prog \<times> prog list \<times> ('h, 'u) world" where
  "run x t p w =
     (case exec_op x t p w of
        None \<Rightarrow> (p, [], w)
      | Some (p', q, w') \<Rightarrow>
          (let (r, qs, w'') = run x t p' w'
           in (r, (case q of None \<Rightarrow> qs | Some s \<Rightarrow> s # qs), w'')))"
  by pat_completeness auto
termination
proof (relation "inv_image {(q, p). sub_prog q p} (\<lambda>(x, t, p, w). p)", goal_cases)
  case 1
  show ?case using wf_sub_prog by (simp add: wfp_def)
next
  case (2 x t p w a b c d)
  then show ?case by (auto dest: exec_op_sub)
qed

declare run.simps [simp del]

text \<open>One rule per operation.\<close>

lemma run_step:
  "exec_op x t p w = Some (p', None, w') \<Longrightarrow> run x t p w = run x t p' w'"
  by (subst run.simps) (auto split: prod.splits)

lemma run_ask:
  "exec_op x t p w = ask f k w \<Longrightarrow>
     run x t p w = run x t (k (fst (f w (w_up w)))) (w\<lparr>w_up := snd (f w (w_up w))\<rparr>)"
  by (rule run_step) (simp add: ask_def split: prod.splits)

lemma run_Done [exec_simps]: "run x t (Done r) w = (Done r, [], w)"
  by (subst run.simps) simp

lemma run_CacheGet [exec_simps]:
  "run x t (CacheGet key k) w =
     run x t (k (fst (foyer_get (ex_hybrid x) key (w_cache w))))
       (w\<lparr>w_cache := snd (foyer_get (ex_hybrid x) key (w_cache w))\<rparr>)"
  by (rule run_step) (simp split: prod.splits)

lemma run_CachePut [exec_simps]:
  "run x t (CachePut key bs ct k) w =
     run x t k (w\<lparr>w_cache := foyer_put (ex_hybrid x) key bs ct (w_cache w)\<rparr>)"
  by (rule run_step) simp

lemma run_CacheStats [exec_simps]:
  "run x t (CacheStats k) w = run x t (k (foyer_stats (w_cache w))) w"
  by (rule run_step) simp

lemma run_Acquire_Leader:
  "inner (w_inflight w) key = None \<Longrightarrow>
     run x t (Acquire key k) w =
       (let g = \<lparr>ig_key = key, ig_entry = next_eid (w_inflight w), ig_released = False\<rparr>
        in run x t (k (Leader g))
             (w\<lparr>w_inflight := snd (acquire key (w_inflight w)), w_held := (w_held w)(t \<mapsto> g)\<rparr>))"
  by (subst run_step [where p = "Acquire key k"]) (auto simp: acquire_def Let_def)

lemma run_Acquire_Follower:
  "inner (w_inflight w) key = Some e \<Longrightarrow>
     run x t (Acquire key k) w = run x t (k (Follower e)) w"
  by (rule run_step) (simp add: acquire_def)

lemma run_SetResult [exec_simps]:
  "run x t (SetResult e r k) w = run x t k (w\<lparr>w_inflight := set_result e r (w_inflight w)\<rparr>)"
  by (rule run_step) simp

lemma run_Release [exec_simps]:
  "run x t (Release key e k) w = run x t k (w\<lparr>w_inflight := release key e (w_inflight w)\<rparr>)"
  by (rule run_step) simp

lemma run_Released [exec_simps]:
  "run x t (Released k) w = run x t k (w\<lparr>w_held := (w_held w)(t := None)\<rparr>)"
proof (rule run_step)
  show "exec_op x t (Released k) w = Some (k, None, w\<lparr>w_held := (w_held w)(t := None)\<rparr>)"
    by (cases "w_held w t") (simp_all add: fun_upd_idem)
qed

lemma run_Notified [exec_simps]:
  "run x t (Notified e k) w = run x t k (w\<lparr>w_inflight := entry_notified t e (w_inflight w)\<rparr>)"
  by (rule run_step) simp

lemma run_AwaitNotified [exec_simps]:
  "run x t (AwaitNotified e k) w =
     (if entry_woken t e (w_inflight w) then run x t k w else (AwaitNotified e k, [], w))"
  by (subst run.simps) (auto split: prod.splits)

lemma run_ReadResult [exec_simps]:
  "run x t (ReadResult e k) w = run x t (k (entry_result e (w_inflight w))) w"
  by (rule run_step) simp

lemma run_StoreHead [exec_simps]:
  "run x t (StoreHead s l k) w =
     run x t (k (fst (up_head x s l (w_up w)))) (w\<lparr>w_up := snd (up_head x s l (w_up w))\<rparr>)"
  by (subst run_ask) simp_all

lemma run_StoreGet [exec_simps]:
  "run x t (StoreGet s l k) w =
     run x t (k (fst (up_get x s l (w_up w)))) (w\<lparr>w_up := snd (up_get x s l (w_up w))\<rparr>)"
  by (subst run_ask) simp_all

lemma run_ReadBytes [exec_simps]:
  "run x t (ReadBytes h k) w =
     run x t (k (fst (up_bytes x h (w_up w)))) (w\<lparr>w_up := snd (up_bytes x h (w_up w))\<rparr>)"
  by (subst run_ask) simp_all

lemma run_PutMultipart [exec_simps]:
  "run x t (PutMultipart s l k) w =
     run x t (k (fst (up_put_multipart x s l (w_up w))))
       (w\<lparr>w_up := snd (up_put_multipart x s l (w_up w))\<rparr>)"
  by (subst run_ask) simp_all

lemma run_AwaitBody [exec_simps]: "run x t (AwaitBody k) w = run x t k w"
  by (rule run_step) simp

lemma run_WritePut [exec_simps]:
  "run x t (WritePut h chunk k) w = run x t k (w\<lparr>w_up := up_write x h chunk (w_up w)\<rparr>)"
  by (rule run_step) simp

lemma run_WriteFinish [exec_simps]:
  "run x t (WriteFinish h k) w =
     run x t (k (fst (up_finish x h (w_up w)))) (w\<lparr>w_up := snd (up_finish x h (w_up w))\<rparr>)"
  by (subst run_ask) simp_all

lemma run_WriteAbort [exec_simps]:
  "run x t (WriteAbort h k) w = run x t k (w\<lparr>w_up := up_abort x h (w_up w)\<rparr>)"
  by (rule run_step) simp

lemma run_Emit [exec_simps]:
  "run x t (Emit ev k) w = run x t k (w\<lparr>w_metrics := w_metrics w @ [ev]\<rparr>)"
  by (rule run_step) simp

lemma run_Gather [exec_simps]:
  "run x t (Gather k) w = run x t (k (reg_gather x (w_metrics w))) w"
  by (rule run_step) simp

lemma run_Now [exec_simps]:
  "run x t (Now k) w =
     run x t (k (fst (clock_instant x (w_up w)))) (w\<lparr>w_up := snd (clock_instant x (w_up w))\<rparr>)"
  by (subst run_ask) simp_all

lemma run_UnixTime [exec_simps]:
  "run x t (UnixTime k) w =
     run x t (k (fst (clock_unix x (w_up w)))) (w\<lparr>w_up := snd (clock_unix x (w_up w))\<rparr>)"
  by (subst run_ask) simp_all

lemma run_Spawn [exec_simps]:
  "run x t (Spawn q k) w = (let (r, qs, w') = run x t k w in (r, q # qs, w'))"
  by (subst run.simps) (auto split: prod.splits)

end
