(* ===== verification/Concurrency.thy ===== *)
theory Concurrency
  imports Semantics
begin

text \<open>
  All requests together: any number of tasks, each with the program left to run, interleaved
  operation by operation, with client disconnects (a handler's future is dropped at an await
  point), spawned tasks, and an outside that may change at any time. The scheduler, the outside and
  the moments of arrival and of disconnects are not determined.
\<close>

section \<open>System states\<close>

text \<open>
  Task ids are handed out in order and never reused. \<open>s_request\<close> is a history variable: the
  request a task was started for. Spawned tasks (prefetch, release) are detached: no client's
  disconnect drops them.
\<close>

record ('h, 'u) sys =
  s_world :: "('h, 'u) world"
  s_tasks :: "tid \<Rightarrow> prog option"
  s_request :: "tid \<Rightarrow> request option"
  s_detached :: "tid \<Rightarrow> bool"
  s_next :: tid

definition world_init :: "'h \<Rightarrow> 'u \<Rightarrow> ('h, 'u) world" where
  "world_init h u = \<lparr>w_cache = \<lparr>fc_cache = h, fc_inserts = 0\<rparr>, w_up = u,
     w_inflight = inflight_new, w_held = (\<lambda>_. None), w_metrics = []\<rparr>"

definition sys_init :: "'h \<Rightarrow> 'u \<Rightarrow> ('h, 'u) sys" where
  "sys_init h u = \<lparr>s_world = world_init h u, s_tasks = (\<lambda>_. None), s_request = (\<lambda>_. None),
     s_detached = (\<lambda>_. False), s_next = 0\<rparr>"

text \<open>The operations at which a task can be suspended, and so dropped.\<close>

primrec awaiting :: "prog \<Rightarrow> bool" where
  "awaiting (Done r) \<longleftrightarrow> False"
| "awaiting (CacheGet key k) \<longleftrightarrow> True"
| "awaiting (CachePut key bs ct k) \<longleftrightarrow> True"
| "awaiting (CacheStats k) \<longleftrightarrow> True"
| "awaiting (Acquire key k) \<longleftrightarrow> True"
| "awaiting (SetResult e r k) \<longleftrightarrow> True"
| "awaiting (Release key e k) \<longleftrightarrow> True"
| "awaiting (Released k) \<longleftrightarrow> False"
| "awaiting (Notified e k) \<longleftrightarrow> False"
| "awaiting (AwaitNotified e k) \<longleftrightarrow> True"
| "awaiting (ReadResult e k) \<longleftrightarrow> True"
| "awaiting (StoreHead s l k) \<longleftrightarrow> True"
| "awaiting (StoreGet s l k) \<longleftrightarrow> True"
| "awaiting (ReadBytes h k) \<longleftrightarrow> True"
| "awaiting (PutMultipart s l k) \<longleftrightarrow> True"
| "awaiting (AwaitBody k) \<longleftrightarrow> True"
| "awaiting (WritePut h chunk k) \<longleftrightarrow> False"
| "awaiting (WriteFinish h k) \<longleftrightarrow> True"
| "awaiting (WriteAbort h k) \<longleftrightarrow> True"
| "awaiting (Emit ev k) \<longleftrightarrow> False"
| "awaiting (Gather k) \<longleftrightarrow> False"
| "awaiting (Now k) \<longleftrightarrow> False"
| "awaiting (UnixTime k) \<longleftrightarrow> False"
| "awaiting (Spawn q k) \<longleftrightarrow> False"

text \<open>A task is replaced by the rest of its program; a spawned one gets the next id.\<close>

definition put_task :: "tid \<Rightarrow> prog option \<Rightarrow> ('h, 'u) sys \<Rightarrow> ('h, 'u) sys" where
  "put_task t p s = s\<lparr>s_tasks := (s_tasks s)(t := p)\<rparr>"

definition spawn_task :: "prog option \<Rightarrow> ('h, 'u) sys \<Rightarrow> ('h, 'u) sys" where
  "spawn_task q s =
     (case q of
        None \<Rightarrow> s
      | Some p \<Rightarrow> s\<lparr>s_tasks := (s_tasks s)(s_next s \<mapsto> p),
                   s_detached := (s_detached s)(s_next s := True), s_next := Suc (s_next s)\<rparr>)"

text \<open>A dropped task drops the guard it holds.\<close>

definition drop_task :: "tid \<Rightarrow> ('h, 'u) sys \<Rightarrow> ('h, 'u) sys" where
  "drop_task t s =
     (let w = s_world s in
      spawn_task (case w_held w t of None \<Rightarrow> None | Some g \<Rightarrow> drop_guard g)
        (put_task t None (s\<lparr>s_world := w\<lparr>w_held := (w_held w)(t := None)\<rparr>\<rparr>)))"

section \<open>Steps\<close>

text \<open>
  \<open>serve\<close> gives the program a request starts, if any. The outside may forget cache entries
  (\<open>res\<close> says which are there), and everything else outside may change freely.
\<close>

inductive sstep ::
    "('h, 'u) externals \<Rightarrow> ('h \<Rightarrow> cache_key \<Rightarrow> cache_entry \<Rightarrow> bool) \<Rightarrow> (request \<Rightarrow> prog option)
      \<Rightarrow> ('h, 'u) sys \<Rightarrow> ('h, 'u) sys \<Rightarrow> bool"
  for x res serve where
  arrive: "serve rq = Some p \<Longrightarrow>
     sstep x res serve s
       (s\<lparr>s_tasks := (s_tasks s)(s_next s \<mapsto> p), s_request := (s_request s)(s_next s \<mapsto> rq),
          s_detached := (s_detached s)(s_next s := False), s_next := Suc (s_next s)\<rparr>)"
| operate: "s_tasks s t = Some p \<Longrightarrow> exec_op x t p (s_world s) = Some (p', q, w') \<Longrightarrow>
     sstep x res serve s (spawn_task q (put_task t (Some p') (s\<lparr>s_world := w'\<rparr>)))"
| finish: "s_tasks s t = Some (Done r) \<Longrightarrow> sstep x res serve s (put_task t None s)"
| disconnect: "s_tasks s t = Some p \<Longrightarrow> awaiting p \<Longrightarrow> \<not> s_detached s t \<Longrightarrow>
     sstep x res serve s (drop_task t s)"
| outside: "(\<And>k e. res h k e \<Longrightarrow> res (fc_cache (w_cache (s_world s))) k e) \<Longrightarrow>
     sstep x res serve s
       (s\<lparr>s_world := (s_world s)\<lparr>w_cache := (w_cache (s_world s))\<lparr>fc_cache := h\<rparr>, w_up := u\<rparr>\<rparr>)"

inductive reachable ::
    "('h, 'u) externals \<Rightarrow> ('h \<Rightarrow> cache_key \<Rightarrow> cache_entry \<Rightarrow> bool) \<Rightarrow> (request \<Rightarrow> prog option)
      \<Rightarrow> 'h \<Rightarrow> 'u \<Rightarrow> ('h, 'u) sys \<Rightarrow> bool"
  for x res serve h0 u0 where
  start: "reachable x res serve h0 u0 (sys_init h0 u0)"
| step: "reachable x res serve h0 u0 s \<Longrightarrow> sstep x res serve s s' \<Longrightarrow>
     reachable x res serve h0 u0 s'"

inductive_cases sstepE: "sstep x res serve s s'"

abbreviation ssteps ::
    "('h, 'u) externals \<Rightarrow> ('h \<Rightarrow> cache_key \<Rightarrow> cache_entry \<Rightarrow> bool) \<Rightarrow> (request \<Rightarrow> prog option)
      \<Rightarrow> ('h, 'u) sys \<Rightarrow> ('h, 'u) sys \<Rightarrow> bool" where
  "ssteps x res serve \<equiv> (sstep x res serve)\<^sup>*\<^sup>*"

lemma reachable_steps:
  "ssteps x res serve s s' \<Longrightarrow> reachable x res serve h0 u0 s \<Longrightarrow> reachable x res serve h0 u0 s'"
  by (induction rule: rtranclp_induct) (auto intro: reachable.step)

section \<open>Updates\<close>

lemma put_task_sel [simp]:
  "s_world (put_task t p s) = s_world s" "s_tasks (put_task t p s) = (s_tasks s)(t := p)"
  "s_request (put_task t p s) = s_request s" "s_detached (put_task t p s) = s_detached s"
  "s_next (put_task t p s) = s_next s"
  by (simp_all add: put_task_def)

lemma spawn_task_None [simp]: "spawn_task None s = s"
  by (simp add: spawn_task_def)

lemma spawn_task_sel [simp]:
  "s_world (spawn_task q s) = s_world s" "s_request (spawn_task q s) = s_request s"
  by (simp_all add: spawn_task_def split: option.splits)

lemma spawn_task_tasks:
  "s_tasks (spawn_task q s) =
     (case q of None \<Rightarrow> s_tasks s | Some p \<Rightarrow> (s_tasks s)(s_next s \<mapsto> p))"
  by (simp add: spawn_task_def split: option.splits)

lemma spawn_task_detached:
  "s_detached (spawn_task q s) =
     (case q of None \<Rightarrow> s_detached s | Some p \<Rightarrow> (s_detached s)(s_next s := True))"
  by (simp add: spawn_task_def split: option.splits)

lemma world_init_sel [simp]:
  "w_inflight (world_init h u) = inflight_new" "w_held (world_init h u) = (\<lambda>_. None)"
  "w_metrics (world_init h u) = []" "w_up (world_init h u) = u"
  "fc_cache (w_cache (world_init h u)) = h"
  by (simp_all add: world_init_def)

lemma sys_init_sel [simp]:
  "s_world (sys_init h u) = world_init h u" "s_tasks (sys_init h u) = (\<lambda>_. None)"
  "s_request (sys_init h u) = (\<lambda>_. None)" "s_detached (sys_init h u) = (\<lambda>_. False)"
  "s_next (sys_init h u) = 0"
  by (simp_all add: sys_init_def)

lemma drop_task_inflight [simp]: "w_inflight (s_world (drop_task t s)) = w_inflight (s_world s)"
  by (simp add: drop_task_def Let_def)

section \<open>Ids\<close>

text \<open>Only ids below \<open>s_next\<close> have been used.\<close>

definition ids_ok :: "('h, 'u) sys \<Rightarrow> bool" where
  "ids_ok s \<longleftrightarrow> (\<forall>t. s_next s \<le> t \<longrightarrow> s_tasks s t = None \<and> s_request s t = None)"

lemma ids_ok_init: "ids_ok (sys_init h u)"
  by (simp add: ids_ok_def)

lemma ids_ok_spawn: "ids_ok s \<Longrightarrow> ids_ok (spawn_task q s)"
  by (auto simp: ids_ok_def spawn_task_def split: option.splits)

lemma ids_ok_put: "ids_ok s \<Longrightarrow> s_tasks s t \<noteq> None \<Longrightarrow> ids_ok (put_task t p s)"
  unfolding ids_ok_def by (auto simp: fun_upd_apply)

lemma ids_ok_world [simp]: "ids_ok (s\<lparr>s_world := w\<rparr>) \<longleftrightarrow> ids_ok s"
  by (simp add: ids_ok_def)

lemma ids_ok_step: "sstep x res serve s s' \<Longrightarrow> ids_ok s \<Longrightarrow> ids_ok s'"
proof (induction rule: sstep.induct)
  case (arrive rq p s)
  then show ?case by (auto simp: ids_ok_def)
next
  case (operate s t p p' q w')
  then show ?case by (auto intro!: ids_ok_spawn ids_ok_put)
next
  case (finish s t r)
  then show ?case by (auto intro: ids_ok_put)
next
  case (disconnect s t p)
  then show ?case by (auto simp: drop_task_def Let_def intro!: ids_ok_spawn ids_ok_put)
next
  case (outside h s u)
  then show ?case by simp
qed

lemma reachable_ids_ok: "reachable x res serve h0 u0 s \<Longrightarrow> ids_ok s"
  by (induction rule: reachable.induct) (auto intro: ids_ok_init ids_ok_step)

section \<open>A run is a sequence of steps of one task\<close>

text \<open>
  What the undisturbed run of theory \<open>Semantics\<close> computes for a task of the system is where the
  system can get by steps of that task alone.
\<close>

definition after_run :: "('h, 'u) externals \<Rightarrow> tid \<Rightarrow> ('h, 'u) sys \<Rightarrow> prog \<Rightarrow> ('h, 'u) sys \<Rightarrow> bool" where
  "after_run x t s p s' \<longleftrightarrow>
     (let (p', qs, w') = run x t p (s_world s) in
      s_world s' = w' \<and> s_tasks s' t = Some p'
      \<and> (\<forall>u. u < s_next s \<longrightarrow> u \<noteq> t \<longrightarrow> s_tasks s' u = s_tasks s u)
      \<and> s_request s' = s_request s \<and> s_next s' = s_next s + length qs)"

lemma run_ssteps:
  assumes "s_tasks s t = Some p" and "t < s_next s"
  shows "\<exists>s'. ssteps x res serve s s' \<and> after_run x t s p s'"
  using assms
proof (induction p arbitrary: s rule: wfp_induct_rule [OF wf_sub_prog])
  case (1 p)
  show ?case
  proof (cases "exec_op x t p (s_world s)")
    case None
    then have "after_run x t s p s"
      using "1.prems" by (simp add: after_run_def run.simps)
    then show ?thesis by blast
  next
    case (Some r)
    obtain p1 q w1 where r: "r = (p1, q, w1)" by (cases r)
    let ?s1 = "spawn_task q (put_task t (Some p1) (s\<lparr>s_world := w1\<rparr>))"
    have st: "sstep x res serve s ?s1"
      using "1.prems" Some r by (blast intro: sstep.operate)
    have t1: "s_tasks ?s1 t = Some p1" and n1: "t < s_next ?s1"
      using "1.prems" by (auto simp: spawn_task_def split: option.splits)
    have w1: "w1 = s_world ?s1" by simp
    obtain s' where s': "ssteps x res serve ?s1 s'" "after_run x t ?s1 p1 s'"
      using "1.IH" [OF exec_op_sub t1 n1] Some r by blast
    obtain p2 qs w2 where run1: "run x t p1 w1 = (p2, qs, w2)" by (cases "run x t p1 w1")
    have run: "run x t p (s_world s) = (p2, (case q of None \<Rightarrow> qs | Some a \<Rightarrow> a # qs), w2)"
      by (subst run.simps) (simp add: Some r run1)
    have "after_run x t s p s'"
      using s'(2) "1.prems" unfolding after_run_def run
      by (auto simp: run1 spawn_task_def split: option.splits)
    with st s'(1) show ?thesis by (meson converse_rtranclp_into_rtranclp)
  qed
qed

text \<open>A first request that nothing disturbs.\<close>

lemma arrive_and_run:
  assumes "serve rq = Some p"
  shows "\<exists>s. reachable x res serve h0 u0 s \<and> s_request s = [0 \<mapsto> rq]
    \<and> s_tasks s 0 = Some (fst (run x 0 p (world_init h0 u0)))
    \<and> s_world s = snd (snd (run x 0 p (world_init h0 u0)))"
proof -
  let ?s1 = "(sys_init h0 u0)\<lparr>s_tasks := [0 \<mapsto> p], s_request := [0 \<mapsto> rq],
    s_detached := (\<lambda>_. False), s_next := 1\<rparr>"
  have "sstep x res serve (sys_init h0 u0) ?s1"
    using sstep.arrive [of serve rq p x res "sys_init h0 u0", OF assms] by (simp add: fun_upd_idem)
  then have r1: "reachable x res serve h0 u0 ?s1" by (rule reachable.step [OF reachable.start])
  obtain s where "ssteps x res serve ?s1 s" "after_run x 0 ?s1 p s"
    using run_ssteps [of ?s1 0 p x res serve] by auto
  with r1 show ?thesis
    by (intro exI [of _ s]) (auto simp: after_run_def dest: reachable_steps split: prod.splits)
qed

end
