(* ===== verification/Single_Flight.thy ===== *)
theory Single_Flight
  imports Concurrency
begin

text \<open>
  The guard protocol. \<open>disc\<close> says that a program takes at most one guard at a time, completes it
  exactly once, and never waits while it holds one; every handler keeps to it. The invariant
  \<open>flight_inv\<close> of the whole system then ties the in-flight table to the tasks: an entry of the table
  has exactly one task that will release it.
\<close>

section \<open>Discipline of programs\<close>

text \<open>
  Where a task is with its guard: it has none; it owns the entry in the table; it has released the
  entry but not yet marked the guard; or it is a release task that a dropped guard spawned.
\<close>

datatype gstate = Idle | Owns cache_key eid | Gone cache_key eid | Orphan cache_key eid

definition plain :: "gstate \<Rightarrow> bool" where
  "plain g \<longleftrightarrow> (case g of Idle \<Rightarrow> True | Owns k e \<Rightarrow> True | Gone k e \<Rightarrow> False | Orphan k e \<Rightarrow> False)"

primrec disc :: "prog \<Rightarrow> gstate \<Rightarrow> bool" where
  "disc (Done r) = (\<lambda>g. g = Idle)"
| "disc (CacheGet key k) = (\<lambda>g. plain g \<and> (\<forall>r. disc (k r) g))"
| "disc (CachePut key bs ct k) = (\<lambda>g. plain g \<and> disc k g)"
| "disc (CacheStats k) = (\<lambda>g. plain g \<and> (\<forall>r. disc (k r) g))"
| "disc (Acquire key k) = (\<lambda>g. g = Idle
     \<and> (\<forall>e. disc (k (Leader \<lparr>ig_key = key, ig_entry = e, ig_released = False\<rparr>)) (Owns key e)
            \<and> disc (k (Follower e)) Idle))"
| "disc (SetResult e r k) = (\<lambda>g. (\<exists>key. g = Owns key e) \<and> disc k g)"
| "disc (Release key e k) = (\<lambda>g. (g = Owns key e \<and> disc k (Gone key e)) \<or> (g = Orphan key e \<and> disc k Idle))"
| "disc (Released k) = (\<lambda>g. (\<exists>key e. g = Gone key e) \<and> disc k Idle)"
| "disc (Notified e k) = (\<lambda>g. g = Idle \<and> disc k g)"
| "disc (AwaitNotified e k) = (\<lambda>g. g = Idle \<and> disc k g)"
| "disc (ReadResult e k) = (\<lambda>g. g = Idle \<and> (\<forall>r. disc (k r) g))"
| "disc (StoreHead s l k) = (\<lambda>g. plain g \<and> (\<forall>r. disc (k r) g))"
| "disc (StoreGet s l k) = (\<lambda>g. plain g \<and> (\<forall>r. disc (k r) g))"
| "disc (ReadBytes h k) = (\<lambda>g. plain g \<and> (\<forall>r. disc (k r) g))"
| "disc (PutMultipart s l k) = (\<lambda>g. plain g \<and> (\<forall>r. disc (k r) g))"
| "disc (AwaitBody k) = (\<lambda>g. plain g \<and> disc k g)"
| "disc (WritePut h chunk k) = (\<lambda>g. plain g \<and> disc k g)"
| "disc (WriteFinish h k) = (\<lambda>g. plain g \<and> (\<forall>r. disc (k r) g))"
| "disc (WriteAbort h k) = (\<lambda>g. plain g \<and> disc k g)"
| "disc (Emit ev k) = (\<lambda>g. plain g \<and> disc k g)"
| "disc (Gather k) = (\<lambda>g. plain g \<and> (\<forall>r. disc (k r) g))"
| "disc (Now k) = (\<lambda>g. plain g \<and> (\<forall>r. disc (k r) g))"
| "disc (UnixTime k) = (\<lambda>g. plain g \<and> (\<forall>r. disc (k r) g))"
| "disc (Spawn q k) = (\<lambda>g. plain g \<and> disc q Idle \<and> disc k g)"

lemma plain_simps [simp]: "plain Idle" "plain (Owns k e)" "\<not> plain (Gone k e)" "\<not> plain (Orphan k e)"
  by (simp_all add: plain_def)

section \<open>The handlers keep to it\<close>

lemma disc_finish [disc_intros]: "disc (finish m r) Idle"
  by (simp add: finish_def)

lemma disc_upstream_failed [disc_intros]: "plain g \<Longrightarrow> disc k g \<Longrightarrow> disc (upstream_failed m s e k) g"
  by (simp add: upstream_failed_def)

lemma disc_upstream_succeeded [disc_intros]: "plain g \<Longrightarrow> disc k g \<Longrightarrow> disc (upstream_succeeded m s k) g"
  by (simp add: upstream_succeeded_def)

lemma disc_complete [disc_intros]:
  "disc k Idle \<Longrightarrow>
     disc (complete \<lparr>ig_key = key, ig_entry = e, ig_released = False\<rparr> r k) (Owns key e)"
  by (simp add: complete_def)

lemma disc_wait [disc_intros]: "(\<And>r. disc (k r) Idle) \<Longrightarrow> disc (wait e k) Idle"
  by (simp add: wait_def)

lemma disc_fetch [disc_intros]:
  "plain g \<Longrightarrow> (\<And>r. disc (k r) g) \<Longrightarrow> disc (fetch_and_cache_entry l st key b p m k) g"
  by (auto simp: fetch_and_cache_entry_def Let_def intro: disc_intros split: option.split sum.split)

lemma disc_respond_fetched [disc_intros]: "disc (respond_fetched l r) Idle"
  by (simp add: respond_fetched_def disc_intros)

lemma disc_get_object_leader [disc_intros]:
  "disc (get_object_leader l st b p
     \<lparr>ig_key = cache_key_new b p, ig_entry = e, ig_released = False\<rparr>) (Owns (cache_key_new b p) e)"
  by (auto simp: get_object_leader_def intro!: disc_intros)

lemma disc_get_object_waited [disc_intros]: "disc (get_object_waited l st b p r) Idle"
  by (auto simp: get_object_waited_def Let_def intro!: disc_intros split: option.split sum.split)

lemma disc_get_object: "disc (get_object l st b p) Idle"
  by (auto simp: get_object_def Let_def intro!: disc_intros split: option.split)

lemma disc_head_prefetch [disc_intros]: "disc (head_prefetch l st key b p) Idle"
  by (auto simp: head_prefetch_def intro!: disc_intros)

lemma disc_head_object: "disc (head_object l st b p params) Idle"
  by (auto simp: head_object_def Let_def intro!: disc_intros split: option.split sum.split)

lemma disc_put_chunks [disc_intros]:
  "disc failed Idle \<Longrightarrow> (\<And>bc. disc (k bc) Idle) \<Longrightarrow> disc (put_chunks h cap failed k items bc) Idle"
  by (induction h cap failed k items bc rule: put_chunks.induct) auto

lemma disc_put_object: "disc (put_object l st b p hs items) Idle"
  by (auto simp: put_object_def Let_def intro!: disc_intros split: option.split sum.split)

lemma disc_object_handler: "object_handler l st rq = Some p \<Longrightarrow> disc p Idle"
  by (auto simp: object_handler_def disc_get_object disc_head_object disc_put_object
      split: option.splits prod.splits if_splits)

lemma disc_auth_middleware: "(\<And>c. disc (next c) Idle) \<Longrightarrow> disc (auth_middleware l a st rq next) Idle"
  by (auto simp: auth_middleware_def Let_def split: option.split sum.split)

lemma disc_run_server: "run_server l a enc utf st rq = Some p \<Longrightarrow> disc p Idle"
  by (auto simp: run_server_def Let_def stats_handler_def metrics_handler_def health_def
      intro!: disc_auth_middleware split: option.splits if_splits dest: disc_object_handler)

section \<open>The invariant\<close>

primrec token :: "gstate \<Rightarrow> (cache_key \<times> eid) option" where
  "token Idle = None"
| "token (Owns k e) = Some (k, e)"
| "token (Gone k e) = None"
| "token (Orphan k e) = Some (k, e)"

primrec held_by :: "gstate \<Rightarrow> inflight_guard option" where
  "held_by Idle = None"
| "held_by (Owns k e) = Some \<lparr>ig_key = k, ig_entry = e, ig_released = False\<rparr>"
| "held_by (Gone k e) = Some \<lparr>ig_key = k, ig_entry = e, ig_released = False\<rparr>"
| "held_by (Orphan k e) = None"

text \<open>
  \<open>G\<close> assigns every task its guard state; \<open>T\<close> are the tasks, \<open>H\<close> the guards held and \<open>i\<close> the
  table.
\<close>

definition flight_core ::
    "(tid \<Rightarrow> gstate) \<Rightarrow> (tid \<Rightarrow> prog option) \<Rightarrow> (tid \<Rightarrow> inflight_guard option) \<Rightarrow> 'r inflight \<Rightarrow> bool" where
  "flight_core G T H i \<longleftrightarrow>
     inflight_wf i
   \<and> (\<forall>t. T t = None \<longrightarrow> G t = Idle)
   \<and> (\<forall>t p. T t = Some p \<longrightarrow> disc p (G t))
   \<and> (\<forall>t. H t = held_by (G t))
   \<and> (\<forall>t k e. token (G t) = Some (k, e) \<longrightarrow> inner i k = Some e)
   \<and> (\<forall>t u k e. token (G t) = Some (k, e) \<longrightarrow> token (G u) = Some (k, e) \<longrightarrow> t = u)
   \<and> (\<forall>k e. inner i k = Some e \<longrightarrow> (\<exists>t. token (G t) = Some (k, e)))"

definition flight_inv :: "('h, 'u) sys \<Rightarrow> bool" where
  "flight_inv s \<longleftrightarrow>
     (\<exists>G. flight_core G (s_tasks s) (w_held (s_world s)) (w_inflight (s_world s))
        \<and> (\<forall>t k e. G t = Orphan k e \<longrightarrow> s_detached s t))"

lemma flight_invI:
  "flight_core G (s_tasks s) (w_held (s_world s)) (w_inflight (s_world s)) \<Longrightarrow>
     (\<And>t k e. G t = Orphan k e \<Longrightarrow> s_detached s t) \<Longrightarrow> flight_inv s"
  unfolding flight_inv_def by blast

lemma flight_invE:
  assumes "flight_inv s"
  obtains G where "flight_core G (s_tasks s) (w_held (s_world s)) (w_inflight (s_world s))"
    and "\<And>t k e. G t = Orphan k e \<Longrightarrow> s_detached s t"
  using assms unfolding flight_inv_def by blast

lemma flight_inv_init: "flight_inv (sys_init h u)"
proof -
  have "flight_core (\<lambda>_. Idle) (\<lambda>_. None) (\<lambda>_. None) inflight_new"
    by (simp add: flight_core_def inflight_wf_new) (simp add: inflight_new_def)
  then show ?thesis by (auto intro: flight_invI)
qed

lemma flight_coreD:
  assumes "flight_core G T H i"
  shows "inflight_wf i"
    and "T t = None \<Longrightarrow> G t = Idle"
    and "T t = Some p \<Longrightarrow> disc p (G t)"
    and "H t = held_by (G t)"
    and "token (G t) = Some (k, e) \<Longrightarrow> inner i k = Some e"
    and "token (G t) = Some (k, e) \<Longrightarrow> token (G u) = Some (k, e) \<Longrightarrow> t = u"
    and "inner i k = Some e \<Longrightarrow> \<exists>t. token (G t) = Some (k, e)"
  using assms unfolding flight_core_def by blast+

lemma flight_coreI:
  assumes "inflight_wf i"
    and "\<And>t. T t = None \<Longrightarrow> G t = Idle"
    and "\<And>t p. T t = Some p \<Longrightarrow> disc p (G t)"
    and "\<And>t. H t = held_by (G t)"
    and "\<And>t k e. token (G t) = Some (k, e) \<Longrightarrow> inner i k = Some e"
    and "\<And>t u k e. token (G t) = Some (k, e) \<Longrightarrow> token (G u) = Some (k, e) \<Longrightarrow> t = u"
    and "\<And>k e. inner i k = Some e \<Longrightarrow> \<exists>t. token (G t) = Some (k, e)"
  shows "flight_core G T H i"
  using assms unfolding flight_core_def by blast

text \<open>The ways a step can touch it, one lemma each.\<close>

lemma core_neutral:
  "flight_core G T H i \<Longrightarrow> disc p' (G t) \<Longrightarrow> inner i' = inner i \<Longrightarrow> inflight_wf i' \<Longrightarrow>
     flight_core G (T(t \<mapsto> p')) H i'"
  unfolding flight_core_def by simp

lemma core_new:
  assumes "flight_core G T H i" "T n = None" "disc q Idle"
  shows "flight_core G (T(n \<mapsto> q)) H i"
  using core_neutral [OF assms(1), of q n i] flight_coreD(1,2) [OF assms(1)] assms(2,3) by simp

lemma core_end: "flight_core G T H i \<Longrightarrow> G t = Idle \<Longrightarrow> flight_core G (T(t := None)) H i"
  unfolding flight_core_def by simp

lemma core_lead:
  assumes core: "flight_core G T H i" and t: "G t = Idle" and free: "inner i k = None"
    and e: "e = next_eid i" and disc: "disc p' (Owns k e)"
  shows "flight_core (G(t := Owns k e)) (T(t \<mapsto> p'))
    (H(t \<mapsto> \<lparr>ig_key = k, ig_entry = e, ig_released = False\<rparr>)) (snd (acquire k i))"
proof -
  have i: "inner (snd (acquire k i)) = (inner i)(k \<mapsto> e)"
    using free e by (simp add: acquire_def Let_def)
  have no: "token (G u) \<noteq> Some (k, d)" for u d
    using flight_coreD(5) [OF core, of u k d] free by auto
  show ?thesis
  proof (rule flight_coreI)
    show "inflight_wf (snd (acquire k i))"
      using flight_coreD(1) [OF core] by (rule inflight_wf_acquire)
  next
    fix u v j c
    assume "token ((G(t := Owns k e)) u) = Some (j, c)" "token ((G(t := Owns k e)) v) = Some (j, c)"
    then show "u = v"
      using no flight_coreD(6) [OF core, of u j c v] by (auto split: if_splits)
  next
    fix j c
    assume "inner (snd (acquire k i)) j = Some c"
    then show "\<exists>u. token ((G(t := Owns k e)) u) = Some (j, c)"
      using flight_coreD(7) [OF core, of j c] t unfolding i
      by (cases "j = k") (auto intro: exI [of _ t], metis option.distinct(1) token.simps(1))
  qed (use flight_coreD(2-5) [OF core] no disc i in \<open>auto split: if_splits\<close>)
qed

lemma core_release:
  assumes core: "flight_core G T H i" and t: "token (G t) = Some (k, e)"
    and g: "token g = None" "held_by g = held_by (G t)" and disc: "disc p' g"
  shows "flight_core (G(t := g)) (T(t \<mapsto> p')) H (release k e i)"
proof -
  have own: "inner i k = Some e" using flight_coreD(5) [OF core t] .
  then have i: "inner (release k e i) = (inner i)(k := None)"
    by (simp add: inner_release)
  have only: "u = t" if "token (G u) = Some (k, d)" for u d
  proof -
    from flight_coreD(5) [OF core that] own have "d = e" by simp
    with that show ?thesis using flight_coreD(6) [OF core _ t, of u] by simp
  qed
  show ?thesis
  proof (rule flight_coreI)
    show "inflight_wf (release k e i)"
      using flight_coreD(1) [OF core] by (rule inflight_wf_release)
  next
    fix u j c
    assume "token ((G(t := g)) u) = Some (j, c)"
    then have "u \<noteq> t" "token (G u) = Some (j, c)" using g(1) by (auto split: if_splits)
    then show "inner (release k e i) j = Some c"
      using only flight_coreD(5) [OF core] unfolding i by auto
  next
    fix u v j c
    assume "token ((G(t := g)) u) = Some (j, c)" "token ((G(t := g)) v) = Some (j, c)"
    then show "u = v"
      using g(1) flight_coreD(6) [OF core, of u j c v] by (auto split: if_splits)
  next
    fix j c
    assume "inner (release k e i) j = Some c"
    then have j: "j \<noteq> k" "inner i j = Some c" unfolding i by (auto split: if_splits)
    from flight_coreD(7) [OF core j(2)] obtain u where u: "token (G u) = Some (j, c)" ..
    then have "u \<noteq> t" using t j(1) by auto
    with u show "\<exists>u. token ((G(t := g)) u) = Some (j, c)" by (intro exI [of _ u]) simp
  qed (use flight_coreD(2-4) [OF core] g(2) disc in \<open>auto split: if_splits\<close>)
qed

lemma core_released:
  assumes core: "flight_core G T H i" and t: "token (G t) = None" and disc: "disc p' Idle"
  shows "flight_core (G(t := Idle)) (T(t \<mapsto> p')) (H(t := None)) i"
proof (rule flight_coreI)
  fix u v j c
  assume "token ((G(t := Idle)) u) = Some (j, c)" "token ((G(t := Idle)) v) = Some (j, c)"
  then show "u = v" using flight_coreD(6) [OF core, of u j c v] by (auto split: if_splits)
next
  fix j c
  assume "inner i j = Some c"
  from flight_coreD(7) [OF core this] obtain u where u: "token (G u) = Some (j, c)" ..
  then have "u \<noteq> t" using t by auto
  with u show "\<exists>u. token ((G(t := Idle)) u) = Some (j, c)" by (intro exI [of _ u]) simp
qed (use flight_coreD(1-5) [OF core] disc in \<open>auto split: if_splits\<close>)

lemma core_drop:
  assumes core: "flight_core G T H i" and t: "G t = Owns k e" and n: "T n = None" "n \<noteq> t"
  shows "flight_core (G(t := Idle, n := Orphan k e)) (T(t := None, n \<mapsto> release_task k e))
    (H(t := None)) i"
proof -
  let ?G = "G(t := Idle, n := Orphan k e)"
  have Gn: "G n = Idle" using flight_coreD(2) [OF core n(1)] .
  have own: "inner i k = Some e" using flight_coreD(5) [OF core, of t] t by simp
  have only: "u = t" if "token (G u) = Some (k, e)" for u
    using flight_coreD(6) [OF core that, of t] t by simp
  show ?thesis
  proof (rule flight_coreI)
    fix u v j c
    assume "token (?G u) = Some (j, c)" "token (?G v) = Some (j, c)"
    then show "u = v"
      using only flight_coreD(6) [OF core, of u j c v] by (auto split: if_splits)
  next
    fix j c
    assume "inner i j = Some c"
    from flight_coreD(7) [OF core this] obtain u where u: "token (G u) = Some (j, c)" ..
    show "\<exists>u. token (?G u) = Some (j, c)"
    proof (cases "u = t")
      case True
      with u t have "token (?G n) = Some (j, c)" by simp
      then show ?thesis ..
    next
      case False
      with u Gn have "token (?G u) = Some (j, c)" by auto
      then show ?thesis ..
    qed
  next
    fix u p
    assume "(T(t := None, n \<mapsto> release_task k e)) u = Some p"
    then show "disc p (?G u)"
      using flight_coreD(3) [OF core, of u p] by (auto simp: release_task_def split: if_splits)
  qed (use flight_coreD(1,2,4,5) [OF core] Gn own n in \<open>auto split: if_splits\<close>)
qed

section \<open>Every step keeps it\<close>

text \<open>
  An operation that is not one of the protocol's own leaves the table, the guards and the guard
  state alone.
\<close>

primrec protocol_op :: "prog \<Rightarrow> bool" where
  "protocol_op (Done r) \<longleftrightarrow> False"
| "protocol_op (CacheGet key k) \<longleftrightarrow> False"
| "protocol_op (CachePut key bs ct k) \<longleftrightarrow> False"
| "protocol_op (CacheStats k) \<longleftrightarrow> False"
| "protocol_op (Acquire key k) \<longleftrightarrow> True"
| "protocol_op (SetResult e r k) \<longleftrightarrow> False"
| "protocol_op (Release key e k) \<longleftrightarrow> True"
| "protocol_op (Released k) \<longleftrightarrow> True"
| "protocol_op (Notified e k) \<longleftrightarrow> False"
| "protocol_op (AwaitNotified e k) \<longleftrightarrow> False"
| "protocol_op (ReadResult e k) \<longleftrightarrow> False"
| "protocol_op (StoreHead s l k) \<longleftrightarrow> False"
| "protocol_op (StoreGet s l k) \<longleftrightarrow> False"
| "protocol_op (ReadBytes h k) \<longleftrightarrow> False"
| "protocol_op (PutMultipart s l k) \<longleftrightarrow> False"
| "protocol_op (AwaitBody k) \<longleftrightarrow> False"
| "protocol_op (WritePut h chunk k) \<longleftrightarrow> False"
| "protocol_op (WriteFinish h k) \<longleftrightarrow> False"
| "protocol_op (WriteAbort h k) \<longleftrightarrow> False"
| "protocol_op (Emit ev k) \<longleftrightarrow> False"
| "protocol_op (Gather k) \<longleftrightarrow> False"
| "protocol_op (Now k) \<longleftrightarrow> False"
| "protocol_op (UnixTime k) \<longleftrightarrow> False"
| "protocol_op (Spawn q k) \<longleftrightarrow> False"

lemma exec_op_neutral:
  assumes "exec_op x t p w = Some (p', q, w')" "\<not> protocol_op p"
  shows "w_held w' = w_held w" "inner (w_inflight w') = inner (w_inflight w)"
    "inflight_wf (w_inflight w') \<longleftrightarrow> inflight_wf (w_inflight w)"
    "disc p g \<Longrightarrow> disc p' g" "disc p g \<Longrightarrow> q = Some a \<Longrightarrow> disc a Idle"
    "next_eid (w_inflight w') = next_eid (w_inflight w)"
  using assms by (cases p; auto simp: ask_def split: prod.splits if_splits)+

lemma operate_core:
  assumes core: "flight_core G T (w_held w) (w_inflight w)" and t: "T t = Some p"
    and op: "exec_op x t p w = Some (p', q, w')"
  shows "(\<exists>g. flight_core (G(t := g)) (T(t \<mapsto> p')) (w_held w') (w_inflight w')
      \<and> (\<forall>k e. g = Orphan k e \<longrightarrow> G t = Orphan k e))
    \<and> (\<forall>a. q = Some a \<longrightarrow> disc a Idle)"
proof (cases "protocol_op p")
  case False
  note n = exec_op_neutral [OF op False]
  have d: "disc p (G t)" using flight_coreD(3) [OF core t] .
  have "flight_core G (T(t \<mapsto> p')) (w_held w') (w_inflight w')"
    unfolding n(1)
    by (rule core_neutral [OF core n(4) [OF d] n(2)]) (use n(3) flight_coreD(1) [OF core] in simp)
  then show ?thesis using n(5) [OF d] by (auto intro!: exI [of _ "G t"])
next
  case True
  have d: "disc p (G t)" using flight_coreD(3) [OF core t] .
  from True show ?thesis
  proof (cases p)
    case (Acquire key k)
    show ?thesis
    proof (cases "inner (w_inflight w) key")
      case None
      let ?e = "next_eid (w_inflight w)"
      from Acquire None op d
      have p': "p' = k (Leader \<lparr>ig_key = key, ig_entry = ?e, ig_released = False\<rparr>)" "q = None"
        and w': "w_inflight w' = snd (acquire key (w_inflight w))"
          "w_held w' = (w_held w)(t \<mapsto> \<lparr>ig_key = key, ig_entry = ?e, ig_released = False\<rparr>)"
        and g: "G t = Idle" and d': "disc p' (Owns key ?e)"
        by (auto simp: acquire_def Let_def)
      from core_lead [OF core g None refl d'] p'(2) w' show ?thesis
        by (auto intro!: exI [of _ "Owns key ?e"])
    next
      case (Some e)
      with Acquire op d have "p' = k (Follower e)" "q = None" "w_inflight w' = w_inflight w"
        "w_held w' = w_held w" "disc p' (G t)"
        by (auto simp: acquire_def)
      with core_neutral [OF core, of p' t "w_inflight w"] flight_coreD(1) [OF core]
      show ?thesis by (auto intro!: exI [of _ "G t"])
    qed
  next
    case (Release key e k)
    with op have p': "p' = k" "q = None" "w_held w' = w_held w"
      "w_inflight w' = release key e (w_inflight w)" by auto
    from Release d consider "G t = Owns key e" "disc k (Gone key e)"
      | "G t = Orphan key e" "disc k Idle" by auto
    then show ?thesis
    proof cases
      case 1
      with core_release [OF core, of t key e "Gone key e" k] p' show ?thesis
        by (auto intro!: exI [of _ "Gone key e"])
    next
      case 2
      with core_release [OF core, of t key e Idle k] p' show ?thesis
        by (auto intro!: exI [of _ Idle])
    qed
  next
    case (Released k)
    with d obtain key e where g: "G t = Gone key e" "disc k Idle" by auto
    with flight_coreD(4) [OF core, of t] Released op
    have "p' = k" "q = None" "w_held w' = (w_held w)(t := None)" "w_inflight w' = w_inflight w"
      by (auto simp: drop_guard_def guard_drop_def)
    with core_released [OF core, of t k] g show ?thesis by (auto intro!: exI [of _ Idle])
  qed simp_all
qed

text \<open>The same for a step of the system.\<close>

lemma operate_sys:
  assumes core: "flight_core G (s_tasks s) (w_held (s_world s)) (w_inflight (s_world s))"
    and det: "\<And>u k e. G u = Orphan k e \<Longrightarrow> s_detached s u"
    and t: "s_tasks s t = Some p" and op: "exec_op x t p (s_world s) = Some (p', q, w')"
    and ids: "ids_ok s" and s': "s' = spawn_task q (put_task t (Some p') (s\<lparr>s_world := w'\<rparr>))"
  obtains g where
    "flight_core (G(t := g)) (s_tasks s') (w_held (s_world s')) (w_inflight (s_world s'))"
    and "\<And>u k e. (G(t := g)) u = Orphan k e \<Longrightarrow> s_detached s' u"
proof -
  from operate_core [OF core t op] obtain g where
    g: "flight_core (G(t := g)) ((s_tasks s)(t \<mapsto> p')) (w_held w') (w_inflight w')"
    and o: "\<And>k e. g = Orphan k e \<Longrightarrow> G t = Orphan k e"
    and q: "\<And>a. q = Some a \<Longrightarrow> disc a Idle" by blast
  have det': "s_detached s u" if "(G(t := g)) u = Orphan k e" for u k e
    using that o det by (auto split: if_splits)
  have "t \<noteq> s_next s" "s_tasks s (s_next s) = None"
    using t ids by (auto simp: ids_ok_def)
  then have free: "((s_tasks s)(t \<mapsto> p')) (s_next s) = None" by simp
  show ?thesis
  proof (cases q)
    case None
    with g det' s' that show ?thesis by simp
  next
    case (Some a)
    have c: "flight_core (G(t := g)) ((s_tasks s)(t \<mapsto> p', s_next s \<mapsto> a)) (w_held w') (w_inflight w')"
      by (rule core_new [OF g free q [OF Some]])
    show ?thesis
    proof (rule that [of g])
      show "flight_core (G(t := g)) (s_tasks s') (w_held (s_world s')) (w_inflight (s_world s'))"
        unfolding s' Some spawn_task_tasks spawn_task_sel put_task_sel using c by simp
    qed (use det' in \<open>simp add: s' Some spawn_task_detached\<close>)
  qed
qed

text \<open>
  A disconnected client's task had no guard, or it owned an entry, which the release task then owns.
\<close>

lemma disconnect_cases:
  assumes core: "flight_core G (s_tasks s) (w_held (s_world s)) (w_inflight (s_world s))"
    and det: "\<And>t k e. G t = Orphan k e \<Longrightarrow> s_detached s t"
    and t: "s_tasks s t = Some p" "awaiting p" "\<not> s_detached s t" and ids: "ids_ok s"
  obtains
    "flight_core G (s_tasks (drop_task t s)) (w_held (s_world (drop_task t s)))
       (w_inflight (s_world (drop_task t s)))" "s_detached (drop_task t s) = s_detached s"
  | k e where "G t = Owns k e" "t \<noteq> s_next s" "G (s_next s) = Idle"
    "flight_core (G(t := Idle, s_next s := Orphan k e)) (s_tasks (drop_task t s))
       (w_held (s_world (drop_task t s))) (w_inflight (s_world (drop_task t s)))"
    "s_detached (drop_task t s) = (s_detached s)(s_next s := True)"
proof -
  have n: "s_tasks s (s_next s) = None" "s_next s \<noteq> t"
    using t(1) ids by (auto simp: ids_ok_def)
  have held: "w_held (s_world s) t = held_by (G t)" using flight_coreD(4) [OF core] .
  have d: "disc p (G t)" using flight_coreD(3) [OF core t(1)] .
  show ?thesis
  proof (cases "G t")
    case Idle
    with held have "(w_held (s_world s))(t := None) = w_held (s_world s)" by (simp add: fun_upd_idem)
    with core_end [OF core Idle] held Idle that(1) show ?thesis
      by (simp add: drop_task_def Let_def)
  next
    case (Owns k e)
    from core_drop [OF core Owns n] held Owns n flight_coreD(2) [OF core n(1)] that(2) show ?thesis
      by (simp add: drop_task_def Let_def drop_guard_def guard_drop_def spawn_task_def)
  next
    case (Gone k e)
    with d t(2) show ?thesis by (cases p) auto
  next
    case (Orphan k e)
    with det t(3) show ?thesis by blast
  qed
qed

lemma flight_inv_step:
  assumes "sstep x res serve s s'" and "ids_ok s" and "flight_inv s"
    and serve: "\<And>rq p. serve rq = Some p \<Longrightarrow> disc p Idle"
  shows "flight_inv s'"
  using assms(1,2,3)
proof (induction rule: sstep.induct)
  case (arrive rq p s)
  from arrive.prems(2) obtain G where
    core: "flight_core G (s_tasks s) (w_held (s_world s)) (w_inflight (s_world s))"
    and det: "\<And>t k e. G t = Orphan k e \<Longrightarrow> s_detached s t" by (rule flight_invE) blast
  have free: "s_tasks s (s_next s) = None" using arrive.prems(1) by (simp add: ids_ok_def)
  then have "G (s_next s) = Idle" using flight_coreD(2) [OF core] by blast
  then show ?case
    using core_new [OF core free serve [OF arrive.hyps]] det
    by (intro flight_invI [of G]) (auto simp: fun_upd_apply)
next
  case (operate s t p p' q w')
  from operate.prems(2) obtain G where
    core: "flight_core G (s_tasks s) (w_held (s_world s)) (w_inflight (s_world s))"
    and det: "\<And>t k e. G t = Orphan k e \<Longrightarrow> s_detached s t" by (rule flight_invE) blast
  show ?case
    by (rule operate_sys [OF core det operate.hyps operate.prems(1) refl], assumption)
       (rule flight_invI)
next
  case (finish s t r)
  from finish.prems(2) obtain G where
    core: "flight_core G (s_tasks s) (w_held (s_world s)) (w_inflight (s_world s))"
    and det: "\<And>t k e. G t = Orphan k e \<Longrightarrow> s_detached s t" by (rule flight_invE) blast
  from flight_coreD(3) [OF core finish.hyps] have "G t = Idle" by simp
  from core_end [OF core this] det show ?case by (intro flight_invI [of G]) simp_all
next
  case (disconnect s t p)
  from disconnect.prems(2) obtain G where
    core: "flight_core G (s_tasks s) (w_held (s_world s)) (w_inflight (s_world s))"
    and det: "\<And>t k e. G t = Orphan k e \<Longrightarrow> s_detached s t" by (rule flight_invE) blast
  show ?case
  proof (rule disconnect_cases [OF core det disconnect.hyps disconnect.prems(1)])
    fix k e
    assume "flight_core (G(t := Idle, s_next s := Orphan k e)) (s_tasks (drop_task t s))
        (w_held (s_world (drop_task t s))) (w_inflight (s_world (drop_task t s)))"
      and "s_detached (drop_task t s) = (s_detached s)(s_next s := True)"
    with det show ?thesis
      by (intro flight_invI [of "G(t := Idle, s_next s := Orphan k e)"]) (auto split: if_splits)
  qed (use det in \<open>auto intro: flight_invI [of G]\<close>)
next
  case (outside h s u)
  from outside.prems(2) obtain G where
    "flight_core G (s_tasks s) (w_held (s_world s)) (w_inflight (s_world s))"
    "\<And>t k e. G t = Orphan k e \<Longrightarrow> s_detached s t" by (rule flight_invE) blast
  then show ?case by (intro flight_invI [of G]) simp_all
qed

lemma reachable_flight_inv:
  assumes "reachable x res serve h0 u0 s" and "\<And>rq p. serve rq = Some p \<Longrightarrow> disc p Idle"
  shows "flight_inv s"
  using assms(1)
proof (induction rule: reachable.induct)
  case start
  show ?case by (rule flight_inv_init)
next
  case (step s s')
  show ?case
    by (rule flight_inv_step [OF step.hyps(2) reachable_ids_ok [OF step.hyps(1)] step.IH])
       (rule assms(2))
qed

section \<open>An entry in the table can always be released\<close>

text \<open>The task that owns an entry is never blocked, and its own steps lead to the release.\<close>

lemma owner_steps:
  assumes "disc p g" "token g \<noteq> None"
  shows "\<exists>p' q w'. exec_op x t p w = Some (p', q, w')"
  using assms by (cases p; cases g) (auto simp: ask_def split: prod.splits)

text \<open>
  A waiter registered on an entry of the table stays registered until the entry leaves the table,
  and is woken then.
\<close>

lemma registered_acquire:
  "inflight_wf i \<Longrightarrow> inner i key = Some e \<Longrightarrow> entry_registered u e i \<Longrightarrow>
     inner (snd (acquire k i)) key = Some e \<and> entry_registered u e (snd (acquire k i))"
  by (cases "inner i k") (auto simp: acquire_def Let_def entry_registered_def inflight_wf_def)

lemma registered_release:
  assumes "inflight_wf i" "inner i key = Some e" "entry_registered u e i"
  shows "if inner (release k d i) key = Some e then entry_registered u e (release k d i)
    else entry_woken u e (release k d i)"
proof (cases "inner i k = Some d")
  case True
  then have "e = d \<longleftrightarrow> k = key" using assms(1,2) unfolding inflight_wf_def by auto
  with True assms(2,3) show ?thesis
    unfolding entry_sel_release [OF True] inner_release by auto
next
  case False
  with fl.rel_other [OF assms(1)] assms(2,3) show ?thesis by simp
qed

lemma exec_op_inflight:
  assumes "exec_op x t p w = Some (p', q, w')"
  shows "w_inflight w' = w_inflight w \<or> (\<exists>k. w_inflight w' = snd (acquire k (w_inflight w)))
      \<or> (\<exists>d r. w_inflight w' = set_result d r (w_inflight w))
      \<or> (\<exists>v d. w_inflight w' = entry_notified v d (w_inflight w))
      \<or> (\<exists>k d. w_inflight w' = release k d (w_inflight w))"
  using assms by (cases p)
    (auto simp: ask_def split: prod.splits permit.splits option.splits if_splits, (metis snd_conv)+)

lemma exec_op_registered:
  assumes op: "exec_op x t p w = Some (p', q, w')" and wf: "inflight_wf (w_inflight w)"
    and e: "inner (w_inflight w) key = Some e" and reg: "entry_registered u e (w_inflight w)"
  shows "if inner (w_inflight w') key = Some e then entry_registered u e (w_inflight w')
    else entry_woken u e (w_inflight w')"
  using exec_op_inflight [OF op] registered_acquire [OF wf e reg] registered_release [OF wf e reg] e reg
  by (auto simp: entry_registered_notified)

lemma owner_releases:
  assumes "flight_core G (s_tasks s) (w_held (s_world s)) (w_inflight (s_world s))"
    and "\<And>u k e. G u = Orphan k e \<Longrightarrow> s_detached s u"
    and "ids_ok s" and "s_tasks s t = Some p" and "token (G t) = Some (key, e)"
  shows "\<exists>s'. ssteps x res serve s s' \<and> inner (w_inflight (s_world s')) key \<noteq> Some e
    \<and> (\<forall>u. u \<noteq> t \<longrightarrow> s_tasks s u \<noteq> None \<longrightarrow> s_tasks s' u = s_tasks s u)
    \<and> (\<forall>u. entry_registered u e (w_inflight (s_world s)) \<longrightarrow>
           entry_woken u e (w_inflight (s_world s')))"
  using assms
proof (induction p arbitrary: s G rule: wfp_induct_rule [OF wf_sub_prog])
  case (1 p)
  note core = "1.prems"(1) and det = "1.prems"(2) and ids = "1.prems"(3) and t = "1.prems"(4)
  have "disc p (G t)" using flight_coreD(3) [OF core t] .
  with "1.prems"(5) obtain p' q w' where op: "exec_op x t p (s_world s) = Some (p', q, w')"
    using owner_steps by fastforce
  define s1 where s1: "s1 = spawn_task q (put_task t (Some p') (s\<lparr>s_world := w'\<rparr>))"
  have st: "sstep x res serve s s1" unfolding s1 by (rule sstep.operate [OF t op])
  have ids1: "ids_ok s1" by (rule ids_ok_step [OF st ids])
  have t1: "s_tasks s1 t = Some p'"
    using t ids by (auto simp: s1 spawn_task_tasks ids_ok_def split: option.splits)
  have oth: "s_tasks s1 u = s_tasks s u" if "u \<noteq> t" "s_tasks s u \<noteq> None" for u
    using that ids by (auto simp: s1 spawn_task_tasks ids_ok_def split: option.splits)
  have "inner (w_inflight (s_world s)) key = Some e"
    by (rule flight_coreD(5) [OF core "1.prems"(5)])
  note reg = exec_op_registered [OF op flight_coreD(1) [OF core] this]
  have w1: "s_world s1 = w'" by (simp add: s1)
  obtain g where core1: "flight_core (G(t := g)) (s_tasks s1) (w_held (s_world s1)) (w_inflight (s_world s1))"
    and det1: "\<And>u k e. (G(t := g)) u = Orphan k e \<Longrightarrow> s_detached s1 u"
    by (rule operate_sys [OF core det t op ids s1]) blast+
  show ?case
  proof (cases "inner (w_inflight (s_world s1)) key = Some e")
    case False
    have "\<forall>u. entry_registered u e (w_inflight (s_world s)) \<longrightarrow> entry_woken u e (w_inflight (s_world s1))"
      using reg False by (simp add: w1)
    with st oth False show ?thesis by blast
  next
    case True
    from flight_coreD(7) [OF core1 True] obtain u where u: "token ((G(t := g)) u) = Some (key, e)" ..
    have "u = t"
      using u flight_coreD(6) [OF core "1.prems"(5), of u] by (auto split: if_splits)
    with u have tok: "token ((G(t := g)) t) = Some (key, e)" by simp
    have "\<exists>s'. ssteps x res serve s1 s' \<and> inner (w_inflight (s_world s')) key \<noteq> Some e
        \<and> (\<forall>u. u \<noteq> t \<longrightarrow> s_tasks s1 u \<noteq> None \<longrightarrow> s_tasks s' u = s_tasks s1 u)
        \<and> (\<forall>u. entry_registered u e (w_inflight (s_world s1)) \<longrightarrow>
               entry_woken u e (w_inflight (s_world s')))"
      by (rule "1.IH" [OF exec_op_sub [OF op] core1 _ ids1 t1 tok]) (rule det1)
    then obtain s' where
      s': "ssteps x res serve s1 s'" "inner (w_inflight (s_world s')) key \<noteq> Some e"
      and oth': "\<forall>u. u \<noteq> t \<longrightarrow> s_tasks s1 u \<noteq> None \<longrightarrow> s_tasks s' u = s_tasks s1 u"
      and wok: "\<forall>u. entry_registered u e (w_inflight (s_world s1)) \<longrightarrow>
        entry_woken u e (w_inflight (s_world s'))" by blast
    have "\<forall>u. entry_registered u e (w_inflight (s_world s)) \<longrightarrow> entry_woken u e (w_inflight (s_world s'))"
      using reg True wok by (simp add: w1)
    moreover have "\<forall>u. u \<noteq> t \<longrightarrow> s_tasks s u \<noteq> None \<longrightarrow> s_tasks s' u = s_tasks s u"
      using oth oth' by simp
    moreover have "ssteps x res serve s s'" using st s'(1) by (rule converse_rtranclp_into_rtranclp)
    ultimately show ?thesis using s'(2) by blast
  qed
qed

section \<open>The server\<close>

lemma server_flight_core:
  assumes "reachable x res (run_server l a enc utf st) h0 u0 s"
  obtains G where "flight_core G (s_tasks s) (w_held (s_world s)) (w_inflight (s_world s))"
    and "\<And>t k e. G t = Orphan k e \<Longrightarrow> s_detached s t"
proof -
  have "flight_inv s"
    using assms by (rule reachable_flight_inv) (rule disc_run_server)
  then show ?thesis using that by (rule flight_invE)
qed

text \<open>
  A task leads a key while it holds the key's guard and has not come to mark it released; every
  upstream call a leader makes for the key lies in that stretch.
\<close>

definition at_released :: "prog option \<Rightarrow> bool" where
  "at_released p \<longleftrightarrow> (case p of Some (Released k) \<Rightarrow> True | _ \<Rightarrow> False)"

definition leading :: "('h, 'u) sys \<Rightarrow> tid \<Rightarrow> cache_key \<Rightarrow> bool" where
  "leading s t key \<longleftrightarrow>
     (case w_held (s_world s) t of None \<Rightarrow> False | Some g \<Rightarrow> ig_key g = key)
     \<and> \<not> at_released (s_tasks s t)"

lemma leading_token:
  assumes core: "flight_core G (s_tasks s) (w_held (s_world s)) (w_inflight (s_world s))"
    and lead: "leading s t key"
  shows "\<exists>e. token (G t) = Some (key, e)"
proof (cases "G t")
  case (Gone k e)
  then obtain p where p: "s_tasks s t = Some p"
    using flight_coreD(2) [OF core, of t] by (cases "s_tasks s t") auto
  from flight_coreD(3) [OF core p] Gone have "at_released (s_tasks s t)"
    unfolding p at_released_def by (cases p) auto
  with lead show ?thesis by (simp add: leading_def)
qed (use lead flight_coreD(4) [OF core, of t] in \<open>auto simp: leading_def\<close>)

text \<open>The owner of an entry in the table can release it on its own.\<close>

lemma server_entry_released:
  assumes "reachable x res (run_server l a enc utf st) h0 u0 s"
    and "inner (w_inflight (s_world s)) key = Some e"
  shows "\<exists>t s'. ssteps x res (run_server l a enc utf st) s s'
    \<and> inner (w_inflight (s_world s')) key \<noteq> Some e
    \<and> (\<forall>u. u \<noteq> t \<longrightarrow> s_tasks s u \<noteq> None \<longrightarrow> s_tasks s' u = s_tasks s u)
    \<and> (\<forall>u. entry_registered u e (w_inflight (s_world s)) \<longrightarrow>
           entry_woken u e (w_inflight (s_world s')))
    \<and> (\<forall>d k. s_tasks s t \<noteq> Some (AwaitNotified d k))"
proof -
  obtain G where core: "flight_core G (s_tasks s) (w_held (s_world s)) (w_inflight (s_world s))"
    and det: "\<And>u k e. G u = Orphan k e \<Longrightarrow> s_detached s u"
    by (rule server_flight_core [OF assms(1)]) blast
  from flight_coreD(7) [OF core assms(2)] obtain t where t: "token (G t) = Some (key, e)" ..
  then obtain p where p: "s_tasks s t = Some p"
    using flight_coreD(2) [OF core, of t] by (cases "s_tasks s t") auto
  have "s_tasks s t \<noteq> Some (AwaitNotified d k)" for d k
    using flight_coreD(3) [OF core, of t "AwaitNotified d k"] t by auto
  moreover have "\<exists>s'. ssteps x res (run_server l a enc utf st) s s'
    \<and> inner (w_inflight (s_world s')) key \<noteq> Some e
    \<and> (\<forall>u. u \<noteq> t \<longrightarrow> s_tasks s u \<noteq> None \<longrightarrow> s_tasks s' u = s_tasks s u)
    \<and> (\<forall>u. entry_registered u e (w_inflight (s_world s)) \<longrightarrow>
           entry_woken u e (w_inflight (s_world s')))"
    by (rule owner_releases [OF core _ reachable_ids_ok [OF assms(1)] p t]) (rule det)
  ultimately show ?thesis by blast
qed

end
