(* ===== verification/Wakeups.thy ===== *)
theory Wakeups
  imports Single_Flight
begin

text \<open>
  Followers and their notification. A follower that has registered when the leader releases is
  woken and finds the leader's result; one that comes to register after the release is never woken,
  and the schedule that leads there is a run of the system.
\<close>

section \<open>Driving one task\<close>

text \<open>\<open>n\<close> operations of a task that spawns nothing.\<close>

fun advance ::
    "nat \<Rightarrow> ('h, 'u) externals \<Rightarrow> tid \<Rightarrow> prog \<Rightarrow> ('h, 'u) world \<Rightarrow> (prog \<times> ('h, 'u) world) option" where
  "advance 0 x t p w = Some (p, w)"
| "advance (Suc n) x t p w =
     (case exec_op x t p w of
        Some (p', None, w') \<Rightarrow> advance n x t p' w'
      | _ \<Rightarrow> None)"

lemma advance_ssteps:
  "advance n x t p (s_world s) = Some (p', w') \<Longrightarrow> s_tasks s t = Some p \<Longrightarrow>
     ssteps x res serve s (put_task t (Some p') (s\<lparr>s_world := w'\<rparr>))"
proof (induction n arbitrary: p s)
  case 0
  then have "put_task t (Some p') (s\<lparr>s_world := w'\<rparr>) = s"
    by (simp add: put_task_def fun_upd_idem)
  then show ?case by simp
next
  case (Suc n)
  then obtain p1 w1 where op: "exec_op x t p (s_world s) = Some (p1, None, w1)"
    and adv: "advance n x t p1 w1 = Some (p', w')"
    by (auto split: option.splits prod.splits)
  let ?s1 = "put_task t (Some p1) (s\<lparr>s_world := w1\<rparr>)"
  have "sstep x res serve s ?s1"
    using sstep.operate [OF Suc.prems(2) op, of res serve] by simp
  moreover have "ssteps x res serve ?s1 (put_task t (Some p') (?s1\<lparr>s_world := w'\<rparr>))"
    by (rule Suc.IH) (simp_all add: adv)
  moreover have "put_task t (Some p') (?s1\<lparr>s_world := w'\<rparr>) = put_task t (Some p') (s\<lparr>s_world := w'\<rparr>)"
    by (simp add: put_task_def)
  ultimately show ?case by (metis converse_rtranclp_into_rtranclp)
qed

section \<open>A follower that registers too late\<close>

text \<open>
  The entry has left the table and the task's registration is not among the woken ones. Only a
  release of the entry could notify it, and a release acts on entries of the table only.
\<close>

definition unreachable_entry :: "tid \<Rightarrow> eid \<Rightarrow> 'r inflight \<Rightarrow> bool" where
  "unreachable_entry t e i \<longleftrightarrow>
     \<not> entry_woken t e i \<and> (\<forall>k. inner i k \<noteq> Some e) \<and> e < next_eid i"

definition lost :: "tid \<Rightarrow> eid \<Rightarrow> (inflight_result option \<Rightarrow> prog) \<Rightarrow> ('h, 'u) sys \<Rightarrow> bool" where
  "lost t e k s \<longleftrightarrow>
     s_tasks s t = Some (AwaitNotified e (ReadResult e k))
     \<and> unreachable_entry t e (w_inflight (s_world s))"

lemma unreachable_acquire:
  "acquire key i = (pm, i') \<Longrightarrow> unreachable_entry t e i \<Longrightarrow> unreachable_entry t e i'"
  by (auto simp: unreachable_entry_def acquire_def entry_woken_def Let_def
      split: option.splits if_splits)

lemma unreachable_updates [simp]:
  "unreachable_entry t e (set_result d r i) \<longleftrightarrow> unreachable_entry t e i"
  "unreachable_entry t e (entry_notified u d i) \<longleftrightarrow> unreachable_entry t e i"
  by (simp_all add: unreachable_entry_def)

lemma unreachable_release: "unreachable_entry t e i \<Longrightarrow> unreachable_entry t e (release key d i)"
  by (auto simp: unreachable_entry_def release_def entry_woken_def heap_update_entry
      split: option.splits if_splits)

lemma unreachable_exec_op:
  "exec_op x u p w = Some (p', q, w') \<Longrightarrow> unreachable_entry t e (w_inflight w) \<Longrightarrow>
     unreachable_entry t e (w_inflight w')"
  by (cases p)
     (auto simp: ask_def unreachable_release
       dest: unreachable_acquire split: prod.splits permit.splits option.splits if_splits)

text \<open>A task id whose task is gone stays without a task.\<close>

lemma gone_step:
  assumes "sstep x res serve s s'" "s_tasks s t = None" "t < s_next s"
  shows "s_tasks s' t = None \<and> t < s_next s'"
  using assms
proof (induction rule: sstep.induct)
  case (operate s u p p' q w')
  then show ?case by (cases "u = t") (auto simp: spawn_task_def split: option.splits)
next
  case (disconnect s u p)
  then show ?case
    by (cases "u = t") (auto simp: drop_task_def Let_def spawn_task_def split: option.splits)
qed auto

lemma lost_step:
  assumes "sstep x res serve s s'" "lost t e k s" "t < s_next s"
  shows "(lost t e k s' \<or> s_tasks s' t = None) \<and> t < s_next s'"
  using assms
proof (induction rule: sstep.induct)
  case (operate s u p p' q w')
  have u: "u \<noteq> t"
  proof
    assume "u = t"
    with operate show False by (auto simp: lost_def unreachable_entry_def)
  qed
  from unreachable_exec_op [OF operate.hyps(2)] operate.prems u show ?case
    by (auto simp: lost_def spawn_task_def split: option.splits)
next
  case (finish s u r)
  then show ?case by (cases "u = t") (auto simp: lost_def)
next
  case (disconnect s u p)
  then show ?case
    by (cases "u = t") (auto simp: lost_def drop_task_def Let_def spawn_task_def split: option.splits)
qed (auto simp: lost_def)

lemma lost_forever:
  assumes "ssteps x res serve s s'" "lost t e k s" "t < s_next s"
  shows "s_tasks s' t = Some (AwaitNotified e (ReadResult e k)) \<or> s_tasks s' t = None"
proof -
  have "(lost t e k s' \<or> s_tasks s' t = None) \<and> t < s_next s'"
    using assms(1)
  proof (induction rule: rtranclp_induct)
    case base
    then show ?case using assms(2,3) by simp
  next
    case (step y z)
    from step.IH consider "lost t e k y" "t < s_next y" | "s_tasks y t = None" "t < s_next y"
      by auto
    then show ?case
    proof cases
      case 1
      then show ?thesis by (rule lost_step [OF step.hyps(2)])
    next
      case 2
      from gone_step [OF step.hyps(2) this] show ?thesis by simp
    qed
  qed
  then show ?thesis by (auto simp: lost_def)
qed

section \<open>The leader's run\<close>

lemma run_upstream_failed:
  "\<exists>u m. run x t (upstream_failed me start err k) w
     = run x t k (w\<lparr>w_up := u, w_metrics := m\<rparr>)"
  unfolding upstream_failed_def by (auto simp: exec_simps)

lemma run_upstream_succeeded:
  "\<exists>u m. run x t (upstream_succeeded me start k) w
     = run x t k (w\<lparr>w_up := u, w_metrics := m\<rparr>)"
  unfolding upstream_succeeded_def by (auto simp: exec_simps)

text \<open>
  Fetching reaches its continuation with some result, having touched neither the table nor the
  guards.
\<close>

lemma run_fetch:
  "\<exists>r w'. run x t (fetch_and_cache_entry l st key b p me k) w = run x t (k r) w'
     \<and> w_inflight w' = w_inflight w \<and> w_held w' = w_held w"
proof (cases "as_stores st b")
  case None
  then show ?thesis by (auto simp: fetch_and_cache_entry_def)
next
  case (Some s)
  let ?start = "fst (clock_instant x (w_up w))"
  let ?u0 = "snd (clock_instant x (w_up w))"
  let ?u1 = "snd (up_get x s (path_into l p) ?u0)"
  show ?thesis
  proof (cases "fst (up_get x s (path_into l p) ?u0)")
    case (Inl err)
    with Some show ?thesis
      using run_upstream_failed [of x t me ?start err "k (Inl (from_store err))" "w\<lparr>w_up := ?u1\<rparr>"]
      by (fastforce simp: fetch_and_cache_entry_def Let_def exec_simps)
  next
    case (Inr h)
    show ?thesis
    proof (cases "fst (up_bytes x h ?u1)")
      case (Inl err)
      with Some Inr show ?thesis
        using run_upstream_failed [of x t me ?start err "k (Inl (from_store err))"
            "w\<lparr>w_up := snd (up_bytes x h ?u1)\<rparr>"]
        by (fastforce simp: fetch_and_cache_entry_def Let_def exec_simps)
    next
      case bs: (Inr bs)
      let ?ct = "Some (resolve_content_type l p bs)"
      let ?cap = "unat (as_cache_max_object_bytes st)"
      let ?ret = "k (Inr (cache_entry_new bs ?ct))"
      let ?k = "if ?cap = 0 \<or> ?cap < length bs then ?ret else CachePut key bs ?ct ?ret"
      obtain u m where "run x t (fetch_and_cache_entry l st key b p me k) w
          = run x t ?k (w\<lparr>w_up := u, w_metrics := m\<rparr>)"
        using Some Inr bs run_upstream_succeeded [of x t me ?start ?k
            "w\<lparr>w_up := snd (up_bytes x h ?u1)\<rparr>"]
        by (auto simp: fetch_and_cache_entry_def Let_def exec_simps)
      then show ?thesis
        by (intro exI [of _ "Inr (cache_entry_new bs ?ct)"])
           (cases "?cap = 0 \<or> ?cap < length bs"; simp add: exec_simps; fastforce)
    qed
  qed
qed

lemma run_get_object_leader:
  assumes "g = \<lparr>ig_key = cache_key_new b p, ig_entry = e, ig_released = False\<rparr>"
  shows "\<exists>r w'. run x t (get_object_leader l st b p g) w
     = (Done (Respond (result_map (\<lambda>entry. build_response l entry False) r)), [], w')
     \<and> w_inflight w' = release (cache_key_new b p) e (set_result e r (w_inflight w))
     \<and> w_held w' = (w_held w)(t := None)"
  using run_fetch [of x t l st "cache_key_new b p" b p "lit ''GET''"
      "\<lambda>result. complete g result (respond_fetched l result)" w] assms
  by (auto simp: get_object_leader_def complete_def respond_fetched_def finish_def exec_simps)

section \<open>The schedule\<close>

lemma advance_get_leader:
  assumes "\<not> invalid_object_path p" "foyer_get (ex_hybrid x) (cache_key_new b p) (w_cache w) = (None, c)"
    and "inner (w_inflight w) (cache_key_new b p) = None"
    and "g = \<lparr>ig_key = cache_key_new b p, ig_entry = next_eid (w_inflight w), ig_released = False\<rparr>"
  shows "advance 3 x t (get_object l st b p) w = Some (get_object_leader l st b p g,
    w\<lparr>w_cache := c, w_metrics := w_metrics w @ [inc_cache_miss (lit ''GET'')],
      w_inflight := snd (acquire (cache_key_new b p) (w_inflight w)), w_held := (w_held w)(t \<mapsto> g)\<rparr>)"
  using assms by (simp add: get_object_def numeral_3_eq_3 acquire_def Let_def)

lemma advance_get_follower:
  assumes "\<not> invalid_object_path p" "foyer_get (ex_hybrid x) (cache_key_new b p) (w_cache w) = (None, c)"
    and "inner (w_inflight w) (cache_key_new b p) = Some e"
  shows "advance 3 x t (get_object l st b p) w = Some (wait e (get_object_waited l st b p),
    w\<lparr>w_cache := c, w_metrics := w_metrics w @ [inc_cache_miss (lit ''GET'')]\<rparr>)"
  using assms by (simp add: get_object_def numeral_3_eq_3 acquire_def Let_def)

lemma arrive_ssteps:
  "serve rq = Some p \<Longrightarrow> \<exists>s'. sstep x res serve s s' \<and> s_world s' = s_world s
     \<and> s_tasks s' = (s_tasks s)(s_next s \<mapsto> p) \<and> s_next s' = Suc (s_next s)
     \<and> s_request s' = (s_request s)(s_next s \<mapsto> rq)"
  using sstep.arrive by fastforce

text \<open>
  Two requests for an uncached object: the first becomes the leader and the second its follower;
  the leader fetches and completes before the follower has registered. A request may run \<open>n\<close>
  operations on the outside (its authentication) before the handler.
\<close>

definition leads_to :: "('h, 'u) externals \<Rightarrow> nat \<Rightarrow> prog \<Rightarrow> prog \<Rightarrow> bool" where
  "leads_to x n p q \<longleftrightarrow> (\<forall>t w. \<exists>u. advance n x t p w = Some (q, w\<lparr>w_up := u\<rparr>))"

lemma leads_to_ssteps:
  assumes lt: "leads_to x n p (get_object l st b q)" and t: "s_tasks s t = Some p"
    and adv: "\<And>u. advance 3 x t (get_object l st b q) ((s_world s)\<lparr>w_up := u\<rparr>) = Some (p', f u)"
  shows "\<exists>u. ssteps x res serve s (put_task t (Some p') (s\<lparr>s_world := f u\<rparr>))"
proof -
  let ?g = "get_object l st b q"
  obtain u where u: "advance n x t p (s_world s) = Some (?g, (s_world s)\<lparr>w_up := u\<rparr>)"
    using lt unfolding leads_to_def by blast
  let ?s1 = "put_task t (Some ?g) (s\<lparr>s_world := (s_world s)\<lparr>w_up := u\<rparr>\<rparr>)"
  have "ssteps x res serve s ?s1" by (rule advance_ssteps [OF u t])
  also have "ssteps x res serve ?s1 (put_task t (Some p') (?s1\<lparr>s_world := f u\<rparr>))"
    by (rule advance_ssteps [where n = 3]) (simp_all add: adv)
  also have "put_task t (Some p') (?s1\<lparr>s_world := f u\<rparr>) = put_task t (Some p') (s\<lparr>s_world := f u\<rparr>)"
    by (simp add: put_task_def)
  finally show ?thesis by blast
qed

text \<open>The first request leads and the second has come to wait, but has not registered.\<close>

lemma two_requests:
  assumes serve: "serve rq = Some p0" and lt: "leads_to x n p0 (get_object l st b p)"
    and p: "\<not> invalid_object_path p"
    and miss: "foyer_get (ex_hybrid x) (cache_key_new b p) (w_cache (world_init h0 u0)) = (None, c1)"
      "foyer_get (ex_hybrid x) (cache_key_new b p) c1 = (None, c2)"
    and g: "g = \<lparr>ig_key = cache_key_new b p, ig_entry = 0, ig_released = False\<rparr>"
  shows "\<exists>s. reachable x res serve h0 u0 s \<and> s_next s = 2
    \<and> s_tasks s = [0 \<mapsto> get_object_leader l st b p g, 1 \<mapsto> wait 0 (get_object_waited l st b p)]
    \<and> w_inflight (s_world s) = snd (acquire (cache_key_new b p) inflight_new)
    \<and> w_held (s_world s) = [0 \<mapsto> g]"
proof -
  let ?key = "cache_key_new b p" and ?w0 = "world_init h0 u0"
  obtain s1 where s1: "sstep x res serve (sys_init h0 u0) s1" "s_world s1 = ?w0"
    "s_tasks s1 = [0 \<mapsto> p0]" "s_next s1 = 1"
    using arrive_ssteps [of serve rq p0 x res "sys_init h0 u0", OF serve] by auto
  obtain s2 where s2: "sstep x res serve s1 s2" "s_world s2 = ?w0"
    "s_tasks s2 = [0 \<mapsto> p0, 1 \<mapsto> p0]" "s_next s2 = 2"
    using arrive_ssteps [of serve rq p0 x res s1, OF serve] s1 by auto
  define w1 where "w1 u = ?w0\<lparr>w_up := u, w_cache := c1, w_metrics := [inc_cache_miss (lit ''GET'')],
    w_inflight := snd (acquire ?key inflight_new), w_held := [0 \<mapsto> g]\<rparr>" for u
  have adv1: "advance 3 x 0 (get_object l st b p) ((s_world s2)\<lparr>w_up := u\<rparr>)
      = Some (get_object_leader l st b p g, w1 u)" for u
    using advance_get_leader [OF p, of x b "?w0\<lparr>w_up := u\<rparr>" c1 g 0 l st] miss(1) s2(2)
    by (simp add: w1_def g inflight_new_def)
  obtain u1 s3 where s3: "ssteps x res serve s2 s3"
    "s3 = put_task 0 (Some (get_object_leader l st b p g)) (s2\<lparr>s_world := w1 u1\<rparr>)"
    using leads_to_ssteps [OF lt _ adv1, of res serve] s2(3) by auto
  define w2 where "w2 u = (w1 u1)\<lparr>w_up := u, w_cache := c2,
    w_metrics := [inc_cache_miss (lit ''GET''), inc_cache_miss (lit ''GET'')]\<rparr>" for u
  have adv2: "advance 3 x 1 (get_object l st b p) ((s_world s3)\<lparr>w_up := u\<rparr>)
      = Some (wait 0 (get_object_waited l st b p), w2 u)" for u
    using advance_get_follower [OF p, of x b "(w1 u1)\<lparr>w_up := u\<rparr>" c2 0 1 l st] miss(2)
    by (simp add: s3 w1_def w2_def acquire_def inflight_new_def)
  obtain u2 s4 where s4: "ssteps x res serve s3 s4"
    "s4 = put_task 1 (Some (wait 0 (get_object_waited l st b p))) (s3\<lparr>s_world := w2 u2\<rparr>)"
    using leads_to_ssteps [OF lt _ adv2, of res serve] s2(3) s3(2) by auto
  have "reachable x res serve h0 u0 s4"
    using s1(1) s2(1) s3(1) s4(1) reachable.start by (meson reachable.step reachable_steps)
  then show ?thesis
    by (intro exI [of _ s4]) (auto simp: s4(2) s3(2) s2 w1_def w2_def)
qed

lemma late_follower:
  assumes serve: "serve rq = Some p0" and lt: "leads_to x n p0 (get_object l st b p)"
    and p: "\<not> invalid_object_path p"
    and miss: "foyer_get (ex_hybrid x) (cache_key_new b p) (w_cache (world_init h0 u0)) = (None, c1)"
      "foyer_get (ex_hybrid x) (cache_key_new b p) c1 = (None, c2)"
  shows "\<exists>s r. reachable x res serve h0 u0 s \<and> s_tasks s 0 = Some (Done (Respond r))
    \<and> lost 1 0 (get_object_waited l st b p) s \<and> s_next s = 2"
proof -
  let ?key = "cache_key_new b p"
  let ?g = "\<lparr>ig_key = ?key, ig_entry = 0, ig_released = False\<rparr>"
  obtain s4 where r4: "reachable x res serve h0 u0 s4" and t4: "s_next s4 = 2"
    "s_tasks s4 = [0 \<mapsto> get_object_leader l st b p ?g, 1 \<mapsto> wait 0 (get_object_waited l st b p)]"
    "w_inflight (s_world s4) = snd (acquire ?key inflight_new)"
    using two_requests [of serve rq p0, where res = res, OF serve lt p miss refl] by blast
  obtain r w5 where run: "run x 0 (get_object_leader l st b p ?g) (s_world s4) = (Done (Respond r), [], w5)"
    and i5: "\<exists>rr. w_inflight w5 = release ?key 0 (set_result 0 rr (w_inflight (s_world s4)))"
    using run_get_object_leader [of ?g b p 0 x 0 l st "s_world s4"] by auto
  have n4: "0 < s_next s4" "s_tasks s4 0 = Some (get_object_leader l st b p ?g)" using t4 by simp_all
  obtain s5 where s5: "ssteps x res serve s4 s5" "after_run x 0 s4 (get_object_leader l st b p ?g) s5"
    using run_ssteps [OF n4(2,1)] by blast
  then have t5: "s_world s5 = w5" "s_tasks s5 0 = Some (Done (Respond r))"
    "s_tasks s5 1 = Some (wait 0 (get_object_waited l st b p))" "s_next s5 = 2"
    using t4 by (simp_all add: after_run_def run)
  define s6 where "s6 = put_task 1 (Some (AwaitNotified 0 (ReadResult 0 (get_object_waited l st b p))))
    (s5\<lparr>s_world := w5\<lparr>w_inflight := entry_notified 1 0 (w_inflight w5)\<rparr>\<rparr>)"
  have s6: "sstep x res serve s5 s6"
    using sstep.operate [of s5 1 _ x] t5 by (force simp: s6_def wait_def)
  have "reachable x res serve h0 u0 s6"
    using r4 s5(1) s6 by (meson reachable.step reachable_steps)
  moreover have "unreachable_entry 1 0 (entry_notified 1 0 (w_inflight w5))"
    using i5 by (auto simp: t4(3) unreachable_entry_def entry_woken_def entry_notified_def
        inner_release release_def set_result_def acquire_def inflight_new_def heap_update_entry
        update_entry_def entry_new_def notify_defs Let_def)
  ultimately show ?thesis
    using t5 by (intro exI [of _ s6] exI [of _ r]) (simp add: s6_def lost_def)
qed

text \<open>A request with the configured bearer token: one reading of the clock, then its handler.\<close>

definition bearer_get :: "http_libs \<Rightarrow> 'vk app_state \<Rightarrow> request \<Rightarrow> rstr \<Rightarrow> rstr \<Rightarrow> bool" where
  "bearer_get l st rq b p \<longleftrightarrow>
     rq_matched_path rq = Some object_route \<and> rq_path_params rq = Some (b, p)
     \<and> rq_query rq \<noteq> None \<and> rq_method rq = lit ''GET''
     \<and> parse_bearer_token l (rq_headers rq) \<noteq> None
     \<and> parse_bearer_token l (rq_headers rq) = bearer_token (as_auth st)"

lemma bearer_get_run_server:
  assumes "bearer_get l st rq b p"
  shows "run_server l a enc utf st rq = Some (UnixTime (\<lambda>now. get_object l st b p))"
proof -
  obtain token params where t: "parse_bearer_token l (rq_headers rq) = Some token"
    "bearer_token (as_auth st) = Some token" "rq_query rq = Some params"
    using assms unfolding bearer_get_def by (metis option.exhaust)
  then have "authenticate a (as_auth st) now m b p (Some token) sig = Inr Bearer" for now m sig
    by (simp add: authenticate_Bearer)
  with assms t show ?thesis
    by (simp add: run_server_def Let_def bearer_get_def protected_methods_def auth_middleware_def
        object_handler_def)
qed

lemma leads_to_UnixTime: "leads_to x 1 (UnixTime (\<lambda>now. p)) p"
  unfolding leads_to_def by (auto simp: ask_def split: prod.splits)

end
