(* ===== verification/In_Memory.thy ===== *)
theory In_Memory
  imports Concurrency
begin

text \<open>
  A concrete outside, on which the hypotheses of the properties are shown to be satisfiable and the
  handlers can be evaluated: a map as the hybrid cache, an in-memory object store with multipart
  uploads, a clock that advances, and simple readings of the HTTP and the signature libraries. The
  laws other theories assume of an outside are proved for it here.
\<close>

section \<open>The cache\<close>

type_synonym mem_cache = "cache_key \<Rightarrow> cache_entry option"

definition mem_hybrid :: "mem_cache hybrid_ops" where
  "mem_hybrid = \<lparr>hc_get = (\<lambda>k h. (Inr (h k), h)), hc_insert = (\<lambda>k e h. h(k \<mapsto> e))\<rparr>"

definition mem_resident :: "mem_cache \<Rightarrow> cache_key \<Rightarrow> cache_entry \<Rightarrow> bool" where
  "mem_resident h k e \<longleftrightarrow> h k = Some e"

lemma mem_hybrid_lawful: "hybrid_lawful mem_hybrid mem_resident"
  by (auto simp: hybrid_lawful_def mem_hybrid_def mem_resident_def)

lemma mem_foyer_get: "foyer_get mem_hybrid k c = (fc_cache c k, c)"
  by (simp add: foyer_get_def mem_hybrid_def split: option.split)

lemma mem_foyer_put:
  "foyer_put mem_hybrid k bs ct c =
     c\<lparr>fc_cache := (fc_cache c)(k \<mapsto> cache_entry_new bs ct), fc_inserts := fc_inserts c + 1\<rparr>"
  by (simp add: foyer_put_def mem_hybrid_def)

section \<open>The object store\<close>

text \<open>
  \<open>ms_objects\<close> are the objects by store and location, \<open>ms_handles\<close> what an open \<open>GET\<close> will read,
  \<open>ms_uploads\<close> the bytes of the open uploads, and \<open>ms_time\<close> counts the calls.
\<close>

record mem_store =
  ms_objects :: "store_ref \<times> location \<Rightarrow> bytes option"
  ms_handles :: "bytes list"
  ms_uploads :: "(store_ref \<times> location \<times> bytes option) list"
  ms_time :: nat

definition mem_store_new :: "(store_ref \<times> location \<Rightarrow> bytes option) \<Rightarrow> mem_store" where
  "mem_store_new objs = \<lparr>ms_objects = objs, ms_handles = [], ms_uploads = [], ms_time = 0\<rparr>"

definition mem_head :: "store_ref \<Rightarrow> location \<Rightarrow> mem_store \<Rightarrow> (store_error + object_meta) \<times> mem_store" where
  "mem_head s l u = (case ms_objects u (s, l) of
     None \<Rightarrow> (Inl SE_NotFound, u)
   | Some bs \<Rightarrow> (Inr \<lparr>om_size = of_nat (length bs)\<rparr>, u))"

definition mem_get :: "store_ref \<Rightarrow> location \<Rightarrow> mem_store \<Rightarrow> (store_error + get_handle) \<times> mem_store" where
  "mem_get s l u = (case ms_objects u (s, l) of
     None \<Rightarrow> (Inl SE_NotFound, u)
   | Some bs \<Rightarrow> (Inr (length (ms_handles u)), u\<lparr>ms_handles := ms_handles u @ [bs]\<rparr>))"

definition mem_bytes :: "get_handle \<Rightarrow> mem_store \<Rightarrow> (store_error + bytes) \<times> mem_store" where
  "mem_bytes h u =
     (if h < length (ms_handles u) then (Inr (ms_handles u ! h), u) else (Inl SE_NotFound, u))"

definition mem_put_multipart ::
    "store_ref \<Rightarrow> location \<Rightarrow> mem_store \<Rightarrow> (store_error + upload) \<times> mem_store" where
  "mem_put_multipart s l u =
     (Inr (length (ms_uploads u)), u\<lparr>ms_uploads := ms_uploads u @ [(s, l, Some [])]\<rparr>)"

definition mem_write :: "upload \<Rightarrow> bytes \<Rightarrow> mem_store \<Rightarrow> mem_store" where
  "mem_write h chunk u = (if h < length (ms_uploads u)
     then u\<lparr>ms_uploads := (ms_uploads u)[h :=
       (let (s, l, b) = ms_uploads u ! h in (s, l, map_option (\<lambda>bs. bs @ chunk) b))]\<rparr>
     else u)"

definition mem_finish :: "upload \<Rightarrow> mem_store \<Rightarrow> (store_error + unit) \<times> mem_store" where
  "mem_finish h u = (if h < length (ms_uploads u) then (case ms_uploads u ! h of
       (s, l, Some bs) \<Rightarrow> (Inr (), u\<lparr>ms_objects := (ms_objects u)((s, l) \<mapsto> bs),
         ms_uploads := (ms_uploads u)[h := (s, l, None)]\<rparr>)
     | (s, l, None) \<Rightarrow> (Inl SE_NotFound, u)) else (Inl SE_NotFound, u))"

definition mem_abort :: "upload \<Rightarrow> mem_store \<Rightarrow> mem_store" where
  "mem_abort h u = (if h < length (ms_uploads u)
     then u\<lparr>ms_uploads := (ms_uploads u)[h := (let (s, l, b) = ms_uploads u ! h in (s, l, None))]\<rparr>
     else u)"

definition mem_instant :: "mem_store \<Rightarrow> nat \<times> mem_store" where
  "mem_instant u = (ms_time u * 1000000, u\<lparr>ms_time := Suc (ms_time u)\<rparr>)"

definition mem_unix :: "mem_store \<Rightarrow> int \<times> mem_store" where
  "mem_unix u = (int (ms_time u), u\<lparr>ms_time := Suc (ms_time u)\<rparr>)"

text \<open>The registry: one family per registered counter, one metric per label tuple recorded.\<close>

definition mem_family :: "metric_event list \<Rightarrow> rstr \<Rightarrow> metric_family" where
  "mem_family evs name =
     \<lparr>mf_name = name, mf_metrics = map (\<lambda>ls.
        \<lparr>m_labels = ls, m_counter = f64_of_rat (of_nat (labelled_total name ls evs)), m_gauge = F64 0\<rparr>)
       (remdups (map event_labels (filter (\<lambda>ev. event_amount name ev \<noteq> 0) evs)))\<rparr>"

definition mem_gather :: "metric_event list \<Rightarrow> metric_family list" where
  "mem_gather evs = map (\<lambda>vec. mem_family evs (vec_name vec)) (metrics_vecs metrics_new)"

definition mem_externals :: "(mem_cache, mem_store) externals" where
  "mem_externals = \<lparr>ex_hybrid = mem_hybrid, up_head = mem_head, up_get = mem_get, up_bytes = mem_bytes,
     up_put_multipart = mem_put_multipart, up_write = mem_write, up_finish = mem_finish,
     up_abort = mem_abort, clock_instant = mem_instant, clock_unix = mem_unix,
     reg_gather = mem_gather\<rparr>"

lemma mem_externals_sel [simp]:
  "ex_hybrid mem_externals = mem_hybrid" "up_head mem_externals = mem_head"
  "up_get mem_externals = mem_get" "up_bytes mem_externals = mem_bytes"
  "up_put_multipart mem_externals = mem_put_multipart" "up_write mem_externals = mem_write"
  "up_finish mem_externals = mem_finish" "up_abort mem_externals = mem_abort"
  "clock_instant mem_externals = mem_instant" "clock_unix mem_externals = mem_unix"
  "reg_gather mem_externals = mem_gather"
  by (simp_all add: mem_externals_def)

lemmas mem_store_defs = mem_head_def mem_get_def mem_bytes_def mem_put_multipart_def mem_write_def
  mem_finish_def mem_abort_def mem_instant_def mem_unix_def mem_store_new_def

text \<open>The registry reports what was recorded.\<close>

lemma find_map_name: "distinct ns \<Longrightarrow> name \<in> set ns \<Longrightarrow>
    find (\<lambda>f. mf_name f = name) (map (mem_family evs) ns) = Some (mem_family evs name)"
  by (induction ns) (auto simp: mem_family_def)

lemma mem_gather_report:
  assumes "name \<in> vec_name ` set (metrics_vecs metrics_new)"
  shows "families_report evs (mem_gather evs) name"
proof -
  have d: "distinct (map vec_name (metrics_vecs metrics_new))"
    by (simp add: metrics_vecs_def metrics_new_def)
  have "mem_gather evs = map (mem_family evs) (map vec_name (metrics_vecs metrics_new))"
    by (simp add: mem_gather_def)
  then have "find (\<lambda>f. mf_name f = name) (mem_gather evs) = Some (mem_family evs name)"
    using find_map_name [OF d] assms by simp
  then show ?thesis
    by (auto simp: families_report_def mem_family_def comp_def image_image f64_of_rat_of_nat)
qed

section \<open>The libraries\<close>

definition mem_libs :: http_libs where
  "mem_libs = \<lparr>mime_from_path = (\<lambda>p. None), infer_mime = (\<lambda>bs. None),
     hv_from_str = (\<lambda>s. Some (map of_nat s)), hv_from_static = map of_nat,
     hv_to_str = (\<lambda>v. Some (map unat v)), path_into = (\<lambda>p. p),
     route_layer_covers_405 = True\<rparr>"

lemma mem_libs_sel [simp]:
  "mime_from_path mem_libs p = None" "infer_mime mem_libs bs = None"
  "hv_from_str mem_libs s = Some (map of_nat s)" "hv_from_static mem_libs s = map of_nat s"
  "hv_to_str mem_libs v = Some (map unat v)" "path_into mem_libs p = p" "route_layer_covers_405 mem_libs"
  by (simp_all add: mem_libs_def)

text \<open>
  Keys are bytes, the public key of a seed is its first byte, and a signature is 64 copies of the
  key's byte. The JSON parser knows one payload.
\<close>

definition mem_payload :: presign_payload where
  "mem_payload = \<lparr>pl_version = 1, pl_expiry = 100, pl_method = lit ''get'', pl_bucket_id = lit ''b'',
     pl_path = lit ''a.txt''\<rparr>"

definition mem_auth :: "u8 auth_libs" where
  "mem_auth = \<lparr>b64url_decode = (\<lambda>s. Some (map of_nat s)),
     payload_from_slice = (\<lambda>bs. if bs = [1, 2, 3] then Some mem_payload else None),
     verifying_key_from_bytes = (\<lambda>bs. Some (hd bs)), signing_key_public = hd,
     verify_strict = (\<lambda>k msg sig. sig = replicate 64 k), uppercase_of = (\<lambda>c. [c])\<rparr>"

lemma mem_auth_sel [simp]:
  "b64url_decode mem_auth s = Some (map of_nat s)"
  "payload_from_slice mem_auth bs = (if bs = [1, 2, 3] then Some mem_payload else None)"
  "verifying_key_from_bytes mem_auth bs = Some (hd bs)" "signing_key_public mem_auth = hd"
  "verify_strict mem_auth k msg sg \<longleftrightarrow> sg = replicate 64 k" "uppercase_of mem_auth c = [c]"
  by (simp_all add: mem_auth_def)

definition mem_link :: rstr where
  "mem_link = [1, 2, 3] @ 46 # replicate 64 7"

section \<open>A configured server\<close>

text \<open>One bucket \<open>b\<close> on store 0, the bearer token \<open>tok\<close>, and a cap of 4 bytes.\<close>

definition mem_app :: "u8 app_state" where
  "mem_app = \<lparr>as_stores = [lit ''b'' \<mapsto> 0],
     as_auth = \<lparr>verifying_key = 7, bearer_token = Some (lit ''tok'')\<rparr>,
     as_cache_max_object_bytes = 4\<rparr>"

lemma mem_app_sel [simp]:
  "as_stores mem_app = [lit ''b'' \<mapsto> 0]" "as_cache_max_object_bytes mem_app = 4"
  "verifying_key (as_auth mem_app) = 7" "bearer_token (as_auth mem_app) = Some (lit ''tok'')"
  by (simp_all add: mem_app_def)

definition mem_objects :: "store_ref \<times> location \<Rightarrow> bytes option" where
  "mem_objects = [(0, lit ''a.txt'') \<mapsto> [1, 2, 3], (0, lit ''big'') \<mapsto> [1, 2, 3, 4, 5]]"

definition mem_world :: "(mem_cache, mem_store) world" where
  "mem_world = world_init Map.empty (mem_store_new mem_objects)"

definition mem_headers :: "rstr \<Rightarrow> header_map" where
  "mem_headers token = [AUTHORIZATION \<mapsto> map of_nat (lit ''Bearer '' @ token)]"

definition mem_request :: "rstr \<Rightarrow> rstr \<Rightarrow> rstr \<Rightarrow> body_item list \<Rightarrow> request" where
  "mem_request token method path body =
     \<lparr>rq_matched_path = Some object_route, rq_path_params = Some (lit ''b'', path),
      rq_query = Some Map.empty, rq_method = method, rq_headers = mem_headers token,
      rq_body = body\<rparr>"

lemma mem_request_sel [simp]:
  "rq_matched_path (mem_request tk m p bd) = Some object_route"
  "rq_path_params (mem_request tk m p bd) = Some (lit ''b'', p)"
  "rq_query (mem_request tk m p bd) = Some Map.empty" "rq_method (mem_request tk m p bd) = m"
  "rq_headers (mem_request tk m p bd) = mem_headers tk" "rq_body (mem_request tk m p bd) = bd"
  by (simp_all add: mem_request_def)

lemma mem_bearer_tok: "parse_bearer_token mem_libs (mem_headers (lit ''tok'')) = Some (lit ''tok'')"
  by (simp add: parse_bearer_token_def mem_headers_def split_whitespace_def lit_eval)

lemma mem_bearer_bad: "parse_bearer_token mem_libs (mem_headers (lit ''bad'')) = Some (lit ''bad'')"
  by (simp add: parse_bearer_token_def mem_headers_def split_whitespace_def lit_eval)

lemma mem_verify: "verify mem_auth (as_auth mem_app) 50 (lit ''GET'') (lit ''b'') (lit ''a.txt'') mem_link = Inr ()"
  by (simp add: verify_def mem_link_def mem_payload_def try_into_array_def lit_eval)

lemma mem_object_path: "\<not> invalid_object_path (lit ''a.txt'')" "\<not> invalid_object_path (lit ''big'')"
  by (simp_all add: invalid_object_path_def lit_eval)

section \<open>A read-only object store\<close>

text \<open>
  The same outside with a store whose objects never change; a handle is the length of the object it
  reads, whose bytes are 1, 2, 3 and so on.
\<close>

definition ro_get :: "store_ref \<Rightarrow> location \<Rightarrow> mem_store \<Rightarrow> (store_error + get_handle) \<times> mem_store" where
  "ro_get s l u = (case mem_objects (s, l) of
     None \<Rightarrow> (Inl SE_NotFound, u) | Some bs \<Rightarrow> (Inr (length bs), u))"

definition ro_bytes :: "get_handle \<Rightarrow> mem_store \<Rightarrow> (store_error + bytes) \<times> mem_store" where
  "ro_bytes h u = (Inr (map of_nat [1..<Suc h]), u)"

definition ro_externals :: "(mem_cache, mem_store) externals" where
  "ro_externals = mem_externals\<lparr>up_get := ro_get, up_bytes := ro_bytes\<rparr>"

lemma ro_externals_sel [simp]:
  "ex_hybrid ro_externals = mem_hybrid" "up_get ro_externals = ro_get" "up_bytes ro_externals = ro_bytes"
  "clock_instant ro_externals = mem_instant" "clock_unix ro_externals = mem_unix"
  by (simp_all add: ro_externals_def)

end
