(* ===== verification/Flight.thy ===== *)
theory Flight
  imports Wakeups In_Memory
begin

text \<open>
  The properties of the single-flight protocol, over every reachable state of the server
  (\<open>run_server\<close>): one leader per key, no key stuck in the table, no waiter lost that registered in
  time, and the waiters that are lost because they registered too late.
\<close>

section \<open>Runs of the server on the in-memory outside\<close>

definition mem_serve :: "request \<Rightarrow> prog option" where
  "mem_serve = run_server mem_libs mem_auth (\<lambda>_. None) (\<lambda>_. None) mem_app"

definition mem_get_request :: request where
  "mem_get_request = mem_request (lit ''tok'') (lit ''GET'') (lit ''a.txt'') []"

abbreviation mem_key :: cache_key where
  "mem_key \<equiv> cache_key_new (lit ''b'') (lit ''a.txt'')"

lemma mem_bearer_get: "bearer_get mem_libs mem_app mem_get_request (lit ''b'') (lit ''a.txt'')"
  by (simp add: bearer_get_def mem_get_request_def mem_bearer_tok)

lemma mem_serve_get:
  "mem_serve mem_get_request
     = Some (UnixTime (\<lambda>now. get_object mem_libs mem_app (lit ''b'') (lit ''a.txt'')))"
  unfolding mem_serve_def by (rule bearer_get_run_server [OF mem_bearer_get])

lemma mem_miss: "foyer_get (ex_hybrid mem_externals) k (w_cache (world_init Map.empty u))
    = (None, w_cache (world_init Map.empty u))"
  by (simp add: mem_foyer_get)

lemma mem_two_requests:
  "\<exists>s. reachable mem_externals mem_resident mem_serve Map.empty (mem_store_new mem_objects) s
    \<and> s_next s = 2 \<and> s_tasks s 1 = Some (wait 0 (get_object_waited mem_libs mem_app (lit ''b'') (lit ''a.txt'')))
    \<and> s_tasks s 0 = Some (get_object_leader mem_libs mem_app (lit ''b'') (lit ''a.txt'')
        \<lparr>ig_key = mem_key, ig_entry = 0, ig_released = False\<rparr>)
    \<and> w_inflight (s_world s) = snd (acquire mem_key inflight_new)
    \<and> w_held (s_world s) = [0 \<mapsto> \<lparr>ig_key = mem_key, ig_entry = 0, ig_released = False\<rparr>]"
  using two_requests [of mem_serve mem_get_request, where res = mem_resident,
      OF mem_serve_get leads_to_UnixTime mem_object_path(1) mem_miss mem_miss refl]
  by fastforce

lemma mem_leading:
  "\<exists>s. reachable mem_externals mem_resident mem_serve Map.empty (mem_store_new mem_objects) s
    \<and> leading s 0 mem_key \<and> inner (w_inflight (s_world s)) mem_key = Some 0"
proof -
  obtain s where s: "reachable mem_externals mem_resident mem_serve Map.empty (mem_store_new mem_objects) s"
    "s_tasks s 0 = Some (get_object_leader mem_libs mem_app (lit ''b'') (lit ''a.txt'')
        \<lparr>ig_key = mem_key, ig_entry = 0, ig_released = False\<rparr>)"
    "w_inflight (s_world s) = snd (acquire mem_key inflight_new)"
    "w_held (s_world s) = [0 \<mapsto> \<lparr>ig_key = mem_key, ig_entry = 0, ig_released = False\<rparr>]"
    using mem_two_requests by blast
  have "\<not> at_released (s_tasks s 0)"
    by (simp add: s(2) at_released_def get_object_leader_def fetch_and_cache_entry_def Let_def)
  then show ?thesis
    using s by (intro exI [of _ s]) (simp add: leading_def acquire_def inflight_new_def)
qed

section \<open>Single flight\<close>

lemma leading_unique:
  assumes "reachable x res (run_server l a enc utf st) h0 u0 s"
    and "leading s t key" and "leading s t' key"
  shows "t = t'"
proof -
  obtain G where core: "flight_core G (s_tasks s) (w_held (s_world s)) (w_inflight (s_world s))"
    by (rule server_flight_core [OF assms(1)])
  from leading_token [OF core assms(2)] leading_token [OF core assms(3)]
  obtain e e' where e: "token (G t) = Some (key, e)" "token (G t') = Some (key, e')" by blast
  from flight_coreD(5) [OF core e(1)] flight_coreD(5) [OF core e(2)] have "e = e'" by simp
  with e flight_coreD(6) [OF core] show ?thesis by blast
qed

text \<open>
  C1: at any moment, under any interleaving of requests, prefetches and disconnects, at most one
  task leads a key, so concurrent misses of an object do not fetch it side by side as leaders.
\<close>

theorem single_flight:
  assumes "reachable x res (run_server l a enc utf st) h0 u0 s"
    and "leading s t key" and "leading s t' key"
  shows "t = t'"
  using assms by (rule leading_unique)

theorem single_flight_witness:
  "\<exists>s. reachable mem_externals mem_resident mem_serve Map.empty (mem_store_new mem_objects) s
     \<and> leading s 0 mem_key \<and> (\<forall>t. leading s t mem_key = (t = 0))"
proof -
  obtain s where s: "reachable mem_externals mem_resident mem_serve Map.empty (mem_store_new mem_objects) s"
    "leading s 0 mem_key" using mem_leading by blast
  have "leading s t mem_key = (t = 0)" for t
    using single_flight [OF s(1) [unfolded mem_serve_def], of t mem_key 0] s(2) by blast
  with s show ?thesis by blast
qed

text \<open>
  C6: no key gets stuck. From every reachable state with an entry in the table there is a run that
  removes the entry, whatever has been cancelled before; and the run moves only the task that owns
  the entry.
\<close>

theorem entry_leaves_table:
  assumes "reachable x res (run_server l a enc utf st) h0 u0 s"
    and "inner (w_inflight (s_world s)) key = Some e"
  shows "\<exists>t s'. ssteps x res (run_server l a enc utf st) s s'
    \<and> inner (w_inflight (s_world s')) key \<noteq> Some e
    \<and> {u. s_tasks s u \<noteq> None \<and> s_tasks s' u \<noteq> s_tasks s u} \<subseteq> {t}"
  using server_entry_released [OF assms] by fast

theorem entry_leaves_table_witness:
  "\<exists>s s'. reachable mem_externals mem_resident mem_serve Map.empty (mem_store_new mem_objects) s
     \<and> inner (w_inflight (s_world s)) mem_key = Some 0
     \<and> ssteps mem_externals mem_resident mem_serve s s'
     \<and> inner (w_inflight (s_world s')) mem_key \<noteq> Some 0"
proof -
  obtain s where s: "reachable mem_externals mem_resident mem_serve Map.empty (mem_store_new mem_objects) s"
    "inner (w_inflight (s_world s)) mem_key = Some 0" using mem_leading by blast
  from entry_leaves_table [OF s(1) [unfolded mem_serve_def] s(2)] s show ?thesis
    unfolding mem_serve_def by blast
qed

text \<open>
  C19: in a state where no task can take a step, the in-flight table is empty and no guard is held.
  Every request has then ended, except followers that wait for a notification nobody is left to
  send.
\<close>

theorem stuck_table_empty:
  assumes "reachable x res (run_server l a enc utf st) h0 u0 s"
    and "\<And>t p. s_tasks s t = Some p \<Longrightarrow> exec_op x t p (s_world s) = None"
  shows "inner (w_inflight (s_world s)) = Map.empty \<and> w_held (s_world s) = Map.empty
    \<and> (\<forall>t p. s_tasks s t = Some p \<longrightarrow> (\<exists>r. p = Done r)
         \<or> (\<exists>e k. p = AwaitNotified e k \<and> \<not> entry_woken t e (w_inflight (s_world s))))"
proof -
  obtain G where core: "flight_core G (s_tasks s) (w_held (s_world s)) (w_inflight (s_world s))"
    by (rule server_flight_core [OF assms(1)])
  have idle: "token (G t) = None \<and> held_by (G t) = None" for t
  proof (cases "s_tasks s t")
    case None
    then show ?thesis using flight_coreD(2) [OF core] by simp
  next
    case (Some p)
    note d = flight_coreD(3) [OF core Some] and stuck = assms(2) [OF Some]
    have "token (G t) = None" using owner_steps [OF d, of x t "s_world s"] stuck by fastforce
    moreover from d stuck have "G t \<noteq> Gone k e" for k e
      by (cases p) (auto split: option.splits)
    ultimately show ?thesis by (cases "G t") auto
  qed
  then show ?thesis
    using flight_coreD(7) [OF core] flight_coreD(4) [OF core] assms(2) [unfolded exec_op_None]
    by (fastforce simp: fun_eq_iff)
qed

text \<open>The state the lost wake-up leaves is such a state: the leader has ended, the follower waits.\<close>

lemma mem_stuck:
  "\<exists>s k. reachable mem_externals mem_resident mem_serve Map.empty (mem_store_new mem_objects) s
     \<and> s_tasks s 1 = Some (AwaitNotified 0 k)
     \<and> (\<forall>t p. s_tasks s t = Some p \<longrightarrow> exec_op mem_externals t p (s_world s) = None)"
proof -
  obtain s r where s: "reachable mem_externals mem_resident mem_serve Map.empty (mem_store_new mem_objects) s"
    "s_tasks s 0 = Some (Done (Respond r))"
    "lost 1 0 (get_object_waited mem_libs mem_app (lit ''b'') (lit ''a.txt'')) s" "s_next s = 2"
    using late_follower [of mem_serve mem_get_request, where res = mem_resident,
        OF mem_serve_get leads_to_UnixTime mem_object_path(1) mem_miss mem_miss] by blast
  have "exec_op mem_externals t p (s_world s) = None" if t: "s_tasks s t = Some p" for t p
  proof -
    have "t < 2" using reachable_ids_ok [OF s(1)] s(4) t by (fastforce simp: ids_ok_def not_le [symmetric])
    then have "t = 0 \<or> t = 1" by linarith
    with t s(2,3) show ?thesis by (auto simp: lost_def unreachable_entry_def)
  qed
  moreover have "s_tasks s 1 = Some (AwaitNotified 0 (ReadResult 0
      (get_object_waited mem_libs mem_app (lit ''b'') (lit ''a.txt''))))"
    using s(3) by (simp add: lost_def)
  ultimately show ?thesis using s(1) by blast
qed

theorem stuck_table_empty_witness:
  "\<exists>s k. reachable mem_externals mem_resident mem_serve Map.empty (mem_store_new mem_objects) s
     \<and> s_tasks s 1 = Some (AwaitNotified 0 k)
     \<and> (\<forall>t p. s_tasks s t = Some p \<longrightarrow> exec_op mem_externals t p (s_world s) = None)
     \<and> inner (w_inflight (s_world s)) = Map.empty \<and> w_held (s_world s) = Map.empty
     \<and> \<not> entry_woken 1 0 (w_inflight (s_world s))"
proof -
  obtain s k where s: "reachable mem_externals mem_resident mem_serve Map.empty (mem_store_new mem_objects) s"
    "s_tasks s 1 = Some (AwaitNotified 0 k)"
    "\<forall>t p. s_tasks s t = Some p \<longrightarrow> exec_op mem_externals t p (s_world s) = None"
    using mem_stuck by blast
  note stuck = stuck_table_empty [OF s(1) [unfolded mem_serve_def] s(3) [rule_format]]
  then have "\<not> entry_woken 1 0 (w_inflight (s_world s))" using s(2) by auto
  with s stuck show ?thesis by (intro exI [of _ s] exI [of _ k]) simp
qed

section \<open>Waiters\<close>

text \<open>
  C7: a follower that has registered with an entry of the table can be served: some run of the
  entry's owner, with no step of the follower's own, brings the notification it waits for.
\<close>

theorem registered_follower_wakes:
  assumes "reachable x res (run_server l a enc utf st) h0 u0 s"
    and "inner (w_inflight (s_world s)) key = Some e"
    and "s_tasks s u = Some (AwaitNotified e k)"
    and "entry_registered u e (w_inflight (s_world s))"
  shows "\<exists>s'. ssteps x res (run_server l a enc utf st) s s'
    \<and> s_tasks s' u = Some (AwaitNotified e k)
    \<and> exec_op x u (AwaitNotified e k) (s_world s') = Some (k, None, s_world s')"
proof -
  obtain t s' where s': "ssteps x res (run_server l a enc utf st) s s'"
    "\<forall>u. u \<noteq> t \<longrightarrow> s_tasks s u \<noteq> None \<longrightarrow> s_tasks s' u = s_tasks s u"
    "\<forall>u. entry_registered u e (w_inflight (s_world s)) \<longrightarrow>
       entry_woken u e (w_inflight (s_world s'))"
    "\<forall>d k. s_tasks s t \<noteq> Some (AwaitNotified d k)"
    using server_entry_released [OF assms(1,2)] by blast
  then have "u \<noteq> t" using assms(3) by metis
  with s' assms(3,4) show ?thesis by (intro exI [of _ s']) auto
qed

lemma mem_registered:
  "\<exists>s. reachable mem_externals mem_resident mem_serve Map.empty (mem_store_new mem_objects) s
    \<and> inner (w_inflight (s_world s)) mem_key = Some 0
    \<and> s_tasks s 1 = Some (AwaitNotified 0 (ReadResult 0
        (get_object_waited mem_libs mem_app (lit ''b'') (lit ''a.txt''))))
    \<and> entry_registered 1 0 (w_inflight (s_world s))"
proof -
  obtain s where s: "reachable mem_externals mem_resident mem_serve Map.empty (mem_store_new mem_objects) s"
    "s_tasks s 1 = Some (wait 0 (get_object_waited mem_libs mem_app (lit ''b'') (lit ''a.txt'')))"
    "w_inflight (s_world s) = snd (acquire mem_key inflight_new)"
    using mem_two_requests by blast
  let ?s' = "put_task 1 (Some (AwaitNotified 0 (ReadResult 0
      (get_object_waited mem_libs mem_app (lit ''b'') (lit ''a.txt'')))))
    (s\<lparr>s_world := (s_world s)\<lparr>w_inflight := entry_notified 1 0 (w_inflight (s_world s))\<rparr>\<rparr>)"
  have "sstep mem_externals mem_resident mem_serve s ?s'"
    using sstep.operate [of s 1 _ mem_externals] s(2) by (force simp: wait_def)
  with s(1) have "reachable mem_externals mem_resident mem_serve Map.empty (mem_store_new mem_objects) ?s'"
    by (rule reachable.step)
  then show ?thesis
    by (intro exI [of _ ?s'])
       (auto simp: s(3) acquire_def inflight_new_def entry_registered_def entry_notified_def
          heap_update_entry update_entry_def entry_new_def notify_defs)
qed

theorem registered_follower_wakes_witness:
  "\<exists>s s' k. reachable mem_externals mem_resident mem_serve Map.empty (mem_store_new mem_objects) s
     \<and> s_tasks s 1 = Some (AwaitNotified 0 k)
     \<and> ssteps mem_externals mem_resident mem_serve s s' \<and> s_tasks s' 1 = Some (AwaitNotified 0 k)
     \<and> exec_op mem_externals 1 (AwaitNotified 0 k) (s_world s') \<noteq> None"
proof -
  obtain s k where s: "reachable mem_externals mem_resident mem_serve Map.empty (mem_store_new mem_objects) s"
    "inner (w_inflight (s_world s)) mem_key = Some 0" "s_tasks s 1 = Some (AwaitNotified 0 k)"
    "entry_registered 1 0 (w_inflight (s_world s))" using mem_registered by blast
  from registered_follower_wakes [OF s(1) [unfolded mem_serve_def] s(2-4)] s show ?thesis
    unfolding mem_serve_def by (metis option.distinct(1))
qed

text \<open>
  C12: two requests for an uncached object have a run after which the first has its answer and the
  second waits for ever: it came to register after the leader's \<open>notify_waiters\<close>, and no further
  run of the whole system, of any length, moves it (only a disconnect of its client removes it).
\<close>

theorem lost_wakeup:
  assumes "bearer_get l st rq b p" and "\<not> invalid_object_path p"
    and "foyer_get (ex_hybrid x) (cache_key_new b p) (w_cache (world_init h0 u0)) = (None, c1)"
    and "foyer_get (ex_hybrid x) (cache_key_new b p) c1 = (None, c2)"
  shows "\<exists>s r k. reachable x res (run_server l a enc utf st) h0 u0 s
    \<and> s_tasks s 0 = Some (Done (Respond r)) \<and> s_tasks s 1 = Some (AwaitNotified 0 k)
    \<and> (\<forall>s'. ssteps x res (run_server l a enc utf st) s s' \<longrightarrow>
            s_tasks s' 1 = Some (AwaitNotified 0 k) \<or> s_tasks s' 1 = None)"
proof -
  obtain s r where s: "reachable x res (run_server l a enc utf st) h0 u0 s"
    "s_tasks s 0 = Some (Done (Respond r))" "lost 1 0 (get_object_waited l st b p) s" "s_next s = 2"
    using late_follower [of "run_server l a enc utf st" rq, where res = res,
        OF bearer_get_run_server [OF assms(1)] leads_to_UnixTime assms(2-4)] by blast
  moreover have "s_tasks s 1 = Some (AwaitNotified 0 (ReadResult 0 (get_object_waited l st b p)))"
    using s(3) by (simp add: lost_def)
  ultimately show ?thesis using lost_forever [OF _ s(3)] by fastforce
qed

theorem lost_wakeup_witness:
  "\<exists>s r k. reachable mem_externals mem_resident mem_serve Map.empty (mem_store_new mem_objects) s
    \<and> s_tasks s 0 = Some (Done (Respond r)) \<and> s_tasks s 1 = Some (AwaitNotified 0 k)
    \<and> (\<forall>s'. ssteps mem_externals mem_resident mem_serve s s' \<longrightarrow>
            s_tasks s' 1 = Some (AwaitNotified 0 k) \<or> s_tasks s' 1 = None)"
  unfolding mem_serve_def
  by (rule lost_wakeup [OF mem_bearer_get mem_object_path(1) mem_miss mem_miss])

end
