(* ===== verification/Isolation.thy ===== *)
theory Isolation
  imports Flight
begin

text \<open>
  What the cache and the answers contain. \<open>flow\<close> bounds the bytes a program moves: it caches only
  bytes that \<open>C\<close> admits for the key, hands to a follower only bytes that \<open>S\<close> admits for the key of
  the entry, and answers only with bytes that \<open>S\<close> admits for the key requested. Every handler obeys
  it, and so does every reachable state of the server.
\<close>

section \<open>Discipline of contents\<close>

text \<open>
  \<open>S\<close>: bytes that may be served for a key; \<open>C\<close>: bytes that may be cached for it; \<open>B\<close>: bytes the
  handle of an upstream read may yield; \<open>L\<close>: handles a store may open for a location; \<open>K\<close>: the key
  of the task's request.
\<close>

record contents =
  c_served :: "cache_key \<Rightarrow> bytes \<Rightarrow> bool"
  c_cached :: "cache_key \<Rightarrow> bytes \<Rightarrow> bool"
  c_bytes :: "get_handle \<Rightarrow> bytes \<Rightarrow> bool"
  c_handle :: "store_ref \<Rightarrow> location \<Rightarrow> get_handle \<Rightarrow> bool"

definition served_response :: "contents \<Rightarrow> cache_key \<Rightarrow> outcome \<Rightarrow> bool" where
  "served_response c key r \<longleftrightarrow>
     (case r of
        Respond (Inr rs) \<Rightarrow> (case rs_body rs of BytesBody bs \<Rightarrow> c_served c key bs | _ \<Rightarrow> True)
      | _ \<Rightarrow> True)"

definition result_ok :: "contents \<Rightarrow> cache_key \<Rightarrow> inflight_result \<Rightarrow> bool" where
  "result_ok c key r \<longleftrightarrow> (case r of Inl e \<Rightarrow> True | Inr en \<Rightarrow> c_served c key (ce_bytes en))"

text \<open>
  \<open>A\<close> is the key each entry of the in-flight heap was made for, as far as entries exist; a program
  that acquires must be ready for entries made later.
\<close>

primrec flow :: "contents \<Rightarrow> cache_key \<Rightarrow> prog \<Rightarrow> (eid \<Rightarrow> cache_key option) \<Rightarrow> bool" where
  "flow c K (Done r) = (\<lambda>A. served_response c K r)"
| "flow c K (CacheGet key k) =
     (\<lambda>A. \<forall>r. (\<forall>en. r = Some en \<longrightarrow> c_cached c key (ce_bytes en)) \<longrightarrow> flow c K (k r) A)"
| "flow c K (CachePut key bs ct k) = (\<lambda>A. c_cached c key bs \<and> flow c K k A)"
| "flow c K (CacheStats k) = (\<lambda>A. \<forall>r. flow c K (k r) A)"
| "flow c K (Acquire key k) = (\<lambda>A. \<forall>A' e. A \<subseteq>\<^sub>m A' \<longrightarrow> A' e = Some key \<longrightarrow>
     flow c K (k (Leader \<lparr>ig_key = key, ig_entry = e, ig_released = False\<rparr>)) A'
     \<and> flow c K (k (Follower e)) A')"
| "flow c K (SetResult e r k) =
     (\<lambda>A. (\<exists>key. A e = Some key \<and> result_ok c key r) \<and> flow c K k A)"
| "flow c K (Release key e k) = (\<lambda>A. flow c K k A)"
| "flow c K (Released k) = (\<lambda>A. flow c K k A)"
| "flow c K (Notified e k) = (\<lambda>A. flow c K k A)"
| "flow c K (AwaitNotified e k) = (\<lambda>A. flow c K k A)"
| "flow c K (ReadResult e k) = (\<lambda>A. \<exists>key. A e = Some key
     \<and> (\<forall>r. (\<forall>v. r = Some v \<longrightarrow> result_ok c key v) \<longrightarrow> flow c K (k r) A))"
| "flow c K (StoreHead s l k) = (\<lambda>A. \<forall>r. flow c K (k r) A)"
| "flow c K (StoreGet s l k) =
     (\<lambda>A. \<forall>r. (\<forall>h. r = Inr h \<longrightarrow> c_handle c s l h) \<longrightarrow> flow c K (k r) A)"
| "flow c K (ReadBytes h k) =
     (\<lambda>A. \<forall>r. (\<forall>bs. r = Inr bs \<longrightarrow> c_bytes c h bs) \<longrightarrow> flow c K (k r) A)"
| "flow c K (PutMultipart s l k) = (\<lambda>A. \<forall>r. flow c K (k r) A)"
| "flow c K (AwaitBody k) = (\<lambda>A. flow c K k A)"
| "flow c K (WritePut h chunk k) = (\<lambda>A. flow c K k A)"
| "flow c K (WriteFinish h k) = (\<lambda>A. \<forall>r. flow c K (k r) A)"
| "flow c K (WriteAbort h k) = (\<lambda>A. flow c K k A)"
| "flow c K (Emit ev k) = (\<lambda>A. flow c K k A)"
| "flow c K (Gather k) = (\<lambda>A. \<forall>r. flow c K (k r) A)"
| "flow c K (Now k) = (\<lambda>A. \<forall>r. flow c K (k r) A)"
| "flow c K (UnixTime k) = (\<lambda>A. \<forall>r. flow c K (k r) A)"
| "flow c K (Spawn q k) = (\<lambda>A. flow c K q A \<and> flow c K k A)"

lemma flow_mono: "A \<subseteq>\<^sub>m A' \<Longrightarrow> flow c K p A \<Longrightarrow> flow c K p A'"
proof (induction p)
  case (Acquire key k)
  then show ?case using map_le_trans by (simp only: flow.simps) blast
next
  case (ReadResult e k)
  then show ?case by (simp only: flow.simps) (meson map_leD rangeI)
next
  case (SetResult e r k)
  then show ?case by (simp only: flow.simps) (meson map_leD)
qed (simp only: flow.simps; blast)+

section \<open>The handlers\<close>

text \<open>
  What the outside and the configuration must satisfy for \<open>c\<close>: a cached body may be served, what a
  store yields for an object's location may be served for the object's key, and may be cached if it
  is within the cap.
\<close>

definition contents_ok :: "http_libs \<Rightarrow> 'vk app_state \<Rightarrow> contents \<Rightarrow> bool" where
  "contents_ok l st c \<longleftrightarrow>
     (\<forall>key bs. c_cached c key bs \<longrightarrow> c_served c key bs)
   \<and> (\<forall>b p s h bs. as_stores st b = Some s \<longrightarrow> c_handle c s (path_into l p) h \<longrightarrow> c_bytes c h bs
        \<longrightarrow> c_served c (cache_key_new b p) bs
          \<and> (length bs \<le> unat (as_cache_max_object_bytes st) \<longrightarrow> c_cached c (cache_key_new b p) bs))"

lemma contents_okD:
  assumes "contents_ok l st c"
  shows "c_cached c key bs \<Longrightarrow> c_served c key bs"
    and "as_stores st b = Some s \<Longrightarrow> c_handle c s (path_into l p) h \<Longrightarrow> c_bytes c h bs \<Longrightarrow>
      c_served c (cache_key_new b p) bs"
    and "as_stores st b = Some s \<Longrightarrow> c_handle c s (path_into l p) h \<Longrightarrow> c_bytes c h bs \<Longrightarrow>
      length bs \<le> unat (as_cache_max_object_bytes st) \<Longrightarrow> c_cached c (cache_key_new b p) bs"
  using assms unfolding contents_ok_def by blast+

lemma body_build_response [simp]: "rs_body (build_response l en hit) = BytesBody (ce_bytes en)"
  by (simp add: build_response_def with_content_type_def with_content_length_def Let_def
      split: option.split)

lemma body_head_responses [simp]:
  "rs_body (build_head_response l en) = EmptyBody"
  "rs_body (build_head_response_with_meta l n ct) = EmptyBody"
  "rs_body build_put_response = EmptyBody"
  by (simp_all add: build_head_response_def build_head_response_with_meta_def build_put_response_def
      with_content_type_def with_content_length_def split: option.split)

lemma served_response_simps [simp]:
  "served_response c K (Respond (Inl e))"
  "served_response c K (RespondJson j)" "served_response c K Finished"
  "served_response c K MethodNotAllowed"
  "served_response c K (Respond (Inr rs)) \<longleftrightarrow>
     (case rs_body rs of BytesBody bs \<Rightarrow> c_served c K bs | _ \<Rightarrow> True)"
  by (simp_all add: served_response_def)

lemma result_ok_simps [simp]:
  "result_ok c key (Inl e)" "result_ok c key (Inr en) \<longleftrightarrow> c_served c key (ce_bytes en)"
  by (simp_all add: result_ok_def)

lemma flow_finish [simp]: "flow c K (finish m r) A \<longleftrightarrow> served_response c K (Respond r)"
  by (simp add: finish_def)

lemma flow_upstream_failed [simp]: "flow c K (upstream_failed m s e k) A \<longleftrightarrow> flow c K k A"
  by (simp add: upstream_failed_def)

lemma flow_upstream_succeeded [simp]: "flow c K (upstream_succeeded m s k) A \<longleftrightarrow> flow c K k A"
  by (simp add: upstream_succeeded_def)

lemma flow_fetch:
  assumes c: "contents_ok l st c"
    and k: "\<And>r. result_ok c (cache_key_new b p) r \<Longrightarrow> flow c K (k r) A"
  shows "flow c K (fetch_and_cache_entry l st (cache_key_new b p) b p m k) A"
  using contents_okD(2,3) [OF c, of b _ p]
  by (auto simp: fetch_and_cache_entry_def Let_def not_less intro!: k split: option.split sum.split)

lemma flow_respond_fetched: "result_ok c K r \<Longrightarrow> flow c K (respond_fetched l r) A"
  by (cases r) (simp_all add: respond_fetched_def)

lemma flow_complete:
  "A e = Some key \<Longrightarrow> result_ok c key r \<Longrightarrow> flow c K k A \<Longrightarrow>
     flow c K (complete \<lparr>ig_key = key, ig_entry = e, ig_released = False\<rparr> r k) A"
  by (simp add: complete_def)

lemma flow_get_object:
  assumes c: "contents_ok l st c"
  shows "flow c (cache_key_new b p) (get_object l st b p) A"
  using contents_okD(1) [OF c]
  by (auto simp: get_object_def Let_def get_object_leader_def wait_def get_object_waited_def
      intro!: flow_fetch [OF c] flow_complete flow_respond_fetched split: option.split sum.split)

lemma flow_head_prefetch:
  assumes c: "contents_ok l st c"
  shows "flow c K (head_prefetch l st (cache_key_new b p) b p) A"
  by (auto simp: head_prefetch_def intro!: flow_fetch [OF c] flow_complete)

lemma flow_head_object:
  assumes c: "contents_ok l st c"
  shows "flow c K (head_object l st b p params) A"
  by (auto simp: head_object_def Let_def intro!: flow_head_prefetch [OF c]
      split: option.split sum.split)

section \<open>The buffered copy of a payload\<close>

text \<open>The chunks of a body whose stream does not fail.\<close>

fun body_chunks :: "body_item list \<Rightarrow> bytes list option" where
  "body_chunks [] = Some []"
| "body_chunks (Inl err # stream) = None"
| "body_chunks (Inr chunk # stream) = map_option ((#) chunk) (body_chunks stream)"

lemma buffer_chunk_capped: "snd bc \<Longrightarrow> buffer_chunk cap chunk bc = bc"
  by (cases bc) (simp add: buffer_chunk_def)

lemma fold_buffer_capped: "snd bc \<Longrightarrow> fold (buffer_chunk cap) chunks bc = bc"
  by (induction chunks) (simp_all add: buffer_chunk_capped)

text \<open>As long as the buffer is not capped it holds everything so far, within the cap.\<close>

lemma buffer_uncapped:
  assumes "\<not> snd (fold (buffer_chunk cap) chunks (buf, False))" "length buf \<le> cap"
  shows "fst (fold (buffer_chunk cap) chunks (buf, False)) = buf @ concat chunks
    \<and> length (buf @ concat chunks) \<le> cap"
  using assms
proof (induction chunks arbitrary: buf)
  case (Cons chunk chunks)
  show ?case
  proof (cases "snd (buffer_chunk cap chunk (buf, False))")
    case True
    with Cons.prems(1) show ?thesis by (simp add: fold_buffer_capped)
  next
    case False
    then have "buffer_chunk cap chunk (buf, False) = (buf @ chunk, False)" "length (buf @ chunk) \<le> cap"
      using Cons.prems(2) by (auto simp: buffer_chunk_def Let_def split: if_splits)
    with Cons.IH [of "buf @ chunk"] Cons.prems show ?thesis by simp
  qed
qed simp

lemma flow_put_chunks:
  assumes "flow c K failed A"
    and "\<And>chunks. body_chunks stream = Some chunks \<Longrightarrow> flow c K (k (fold (buffer_chunk cap) chunks bc)) A"
  shows "flow c K (put_chunks h cap failed k stream bc) A"
  using assms
proof (induction h cap failed k stream bc rule: put_chunks.induct)
  case (3 h cap failed k chunk stream bc)
  have "flow c K (put_chunks h cap failed k stream (buffer_chunk cap chunk bc)) A"
  proof (rule "3.IH" [OF "3.prems"(1)])
    fix chunks
    assume "body_chunks stream = Some chunks"
    with "3.prems"(2) [of "chunk # chunks"]
    show "flow c K (k (fold (buffer_chunk cap) chunks (buffer_chunk cap chunk bc))) A" by simp
  qed
  then show ?case by simp
qed simp_all

lemma flow_put_object:
  assumes put: "\<And>chunks. body_chunks stream = Some chunks \<Longrightarrow>
      length (concat chunks) \<le> unat (as_cache_max_object_bytes st) \<Longrightarrow>
      c_cached c (cache_key_new b p) (concat chunks)"
  shows "flow c K (put_object l st b p hs stream) A"
proof -
  let ?cap = "unat (as_cache_max_object_bytes st)"
  have "c_cached c (cache_key_new b p) (fst bc)"
    if "body_chunks stream = Some chunks" "bc = fold (buffer_chunk ?cap) chunks ([], ?cap = 0)"
      "\<not> snd bc" for chunks bc
  proof -
    have cap: "?cap \<noteq> 0" using that(2,3) by (cases "?cap = 0") (auto simp: fold_buffer_capped)
    with buffer_uncapped [of ?cap chunks "[]"] that put [OF that(1)] show ?thesis by simp
  qed
  then show ?thesis
    by (fastforce simp: put_object_def Let_def intro!: flow_put_chunks split: option.split sum.split prod.split)
qed

section \<open>The server\<close>

text \<open>The key of a request, and what a request may bring into the cache.\<close>

definition request_key :: "request \<Rightarrow> cache_key" where
  "request_key rq =
     (case rq_path_params rq of Some (b, p) \<Rightarrow> cache_key_new b p | None \<Rightarrow> cache_key_new [] [])"

text \<open>The middleware lets the request through at some time.\<close>

definition admitted :: "http_libs \<Rightarrow> 'vk auth_libs \<Rightarrow> 'vk app_state \<Rightarrow> request \<Rightarrow> bool" where
  "admitted l a st rq \<longleftrightarrow>
     (\<exists>b p params now m. rq_path_params rq = Some (b, p) \<and> rq_query rq = Some params
        \<and> authenticate a (as_auth st) now (rq_method rq) b p (parse_bearer_token l (rq_headers rq))
            (params (lit ''sig'')) = Inr m)"

definition uploads ::
    "http_libs \<Rightarrow> 'vk auth_libs \<Rightarrow> 'vk app_state \<Rightarrow> request \<Rightarrow> cache_key \<Rightarrow> bytes \<Rightarrow> bool" where
  "uploads l a st rq key bs \<longleftrightarrow>
     rq_method rq = lit ''PUT'' \<and> rq_path_params rq = Some (ck_bucket_id key, ck_path key)
     \<and> admitted l a st rq \<and> (\<exists>chunks. body_chunks (rq_body rq) = Some chunks \<and> bs = concat chunks)"

definition request_ok ::
    "http_libs \<Rightarrow> 'vk auth_libs \<Rightarrow> 'vk app_state \<Rightarrow> contents \<Rightarrow> request \<Rightarrow> bool" where
  "request_ok l a st c rq \<longleftrightarrow>
     (\<forall>key bs. uploads l a st rq key bs \<longrightarrow> length bs \<le> unat (as_cache_max_object_bytes st) \<longrightarrow>
        c_cached c key bs)"

lemma flow_object_handler:
  assumes c: "contents_ok l st c" and h: "object_handler l st rq = Some p" and rq: "request_ok l a st c rq"
    and adm: "admitted l a st rq"
  shows "flow c (request_key rq) p A"
proof -
  from h obtain b q params where r: "rq_path_params rq = Some (b, q)" "rq_query rq = Some params"
    by (auto simp: object_handler_def split: option.splits)
  then have key: "request_key rq = cache_key_new b q" by (simp add: request_key_def)
  from h r consider "p = get_object l st b q" | "p = head_object l st b q params"
    | "rq_method rq = lit ''PUT''" "p = put_object l st b q (rq_headers rq) (rq_body rq)"
    by (auto simp: object_handler_def split: if_splits)
  then show ?thesis
  proof cases
    case 1
    then show ?thesis unfolding key using flow_get_object [OF c] by simp
  next
    case 2
    then show ?thesis using flow_head_object [OF c] by simp
  next
    case 3
    have "c_cached c (cache_key_new b q) (concat chunks)"
      if "body_chunks (rq_body rq) = Some chunks"
        "length (concat chunks) \<le> unat (as_cache_max_object_bytes st)" for chunks
      using rq that r(1) 3(1) adm by (auto simp: request_ok_def uploads_def)
    then show ?thesis unfolding 3(2) by (rule flow_put_object)
  qed
qed

lemma flow_auth_middleware:
  assumes c: "contents_ok l st c" and rq: "request_ok l a st c rq"
  shows "flow c (request_key rq) (auth_middleware l a st rq (\<lambda>auth. case object_handler l st rq of
      Some p \<Rightarrow> p | None \<Rightarrow> Done MethodNotAllowed)) A"
proof -
  define q where "q = (case object_handler l st rq of Some p \<Rightarrow> p | None \<Rightarrow> Done MethodNotAllowed)"
  have "flow c (request_key rq) q A" if "admitted l a st rq"
    using flow_object_handler [OF c _ rq that] by (auto simp: q_def split: option.split)
  then have flow: "flow c (request_key rq) q A"
    if "rq_path_params rq = Some (b, p)" "rq_query rq = Some params"
      "authenticate a (as_auth st) now (rq_method rq) b p (parse_bearer_token l (rq_headers rq))
         (params (lit ''sig'')) = Inr m" for b p params now m
    using that unfolding admitted_def by blast
  show ?thesis unfolding q_def [symmetric]
    by (auto simp: auth_middleware_def Let_def intro: flow split: option.split sum.split)
qed

lemma flow_run_server:
  assumes c: "contents_ok l st c" and h: "run_server l a enc utf st rq = Some p"
    and rq: "request_ok l a st c rq"
  shows "flow c (request_key rq) p A"
  using h flow_auth_middleware [OF c rq]
  by (auto simp: run_server_def Let_def stats_handler_def metrics_handler_def health_def split: option.splits if_splits)

section \<open>Every step keeps it\<close>

definition outside_ok :: "('h, 'u) externals \<Rightarrow> contents \<Rightarrow> bool" where
  "outside_ok x c \<longleftrightarrow>
     (\<forall>s l u h u'. up_get x s l u = (Inr h, u') \<longrightarrow> c_handle c s l h)
   \<and> (\<forall>h u bs u'. up_bytes x h u = (Inr bs, u') \<longrightarrow> c_bytes c h bs)"

text \<open>The shared state: in-flight results and cached entries.\<close>

definition world_ok ::
    "('h \<Rightarrow> cache_key \<Rightarrow> cache_entry \<Rightarrow> bool) \<Rightarrow> contents \<Rightarrow> (eid \<Rightarrow> cache_key option)
      \<Rightarrow> ('h, 'u) world \<Rightarrow> bool" where
  "world_ok res c A w \<longleftrightarrow>
     (\<forall>e. next_eid (w_inflight w) \<le> e \<longrightarrow> A e = None)
   \<and> (\<forall>k e. inner (w_inflight w) k = Some e \<longrightarrow> A e = Some k)
   \<and> (\<forall>e v. entry_result e (w_inflight w) = Some v \<longrightarrow> (\<exists>k. A e = Some k \<and> result_ok c k v))
   \<and> (\<forall>k en. res (fc_cache (w_cache w)) k en \<longrightarrow> c_cached c k (ce_bytes en))"

lemma world_okD:
  assumes "world_ok res c A w"
  shows "next_eid (w_inflight w) \<le> e \<Longrightarrow> A e = None"
    and "inner (w_inflight w) k = Some e \<Longrightarrow> A e = Some k"
    and "entry_result e (w_inflight w) = Some v \<Longrightarrow> \<exists>k. A e = Some k \<and> result_ok c k v"
    and "res (fc_cache (w_cache w)) k en \<Longrightarrow> c_cached c k (ce_bytes en)"
  using assms unfolding world_ok_def by blast+

lemma world_ok_inflight:
  assumes "world_ok res c A w" "next_eid i = next_eid (w_inflight w)"
    and "\<And>k e. inner i k = Some e \<Longrightarrow> inner (w_inflight w) k = Some e"
    and "\<And>e v. entry_result e i = Some v \<Longrightarrow> entry_result e (w_inflight w) = Some v
      \<or> (\<exists>k. A e = Some k \<and> result_ok c k v)"
  shows "world_ok res c A (w\<lparr>w_inflight := i\<rparr>)"
  using assms unfolding world_ok_def by simp blast

lemma world_ok_lead:
  assumes w: "world_ok res c A w" and wf: "inflight_wf (w_inflight w)"
    and free: "inner (w_inflight w) key = None" and e: "e = next_eid (w_inflight w)"
  shows "A \<subseteq>\<^sub>m A(e \<mapsto> key)"
    and "world_ok res c (A(e \<mapsto> key)) (w\<lparr>w_inflight := snd (acquire key (w_inflight w)), w_held := H\<rparr>)"
proof -
  have "A e = None" using world_okD(1) [OF w] e by simp
  then show le: "A \<subseteq>\<^sub>m A(e \<mapsto> key)" by (rule map_le_insert_fresh)
  have "heap (w_inflight w) e = None" using wf e unfolding inflight_wf_def by auto
  moreover have "inner (w_inflight w) k \<noteq> Some e" for k
    using wf e unfolding inflight_wf_def by blast
  ultimately show "world_ok res c (A(e \<mapsto> key))
      (w\<lparr>w_inflight := snd (acquire key (w_inflight w)), w_held := H\<rparr>)"
    using w free e unfolding world_ok_def
    by (auto simp: acquire_def Let_def entry_result_def entry_new_def split: option.splits if_splits)
qed

lemma world_ok_up [simp]: "world_ok res c A (w\<lparr>w_up := u\<rparr>) = world_ok res c A w"
  by (simp add: world_ok_def)

lemma flow_exec_op:
  assumes op: "exec_op x t p w = Some (p', q, w')" and f: "flow c K p A"
    and w: "world_ok res c A w" and wf: "inflight_wf (w_inflight w)"
    and x: "outside_ok x c" and hl: "hybrid_lawful (ex_hybrid x) res"
  shows "\<exists>A'. A \<subseteq>\<^sub>m A' \<and> world_ok res c A' w' \<and> flow c K p' A'
    \<and> (\<forall>a. q = Some a \<longrightarrow> flow c K a A')"
proof (cases p)
  case (CacheGet key k)
  have "c_cached c key (ce_bytes en)" if "foyer_get (ex_hybrid x) key (w_cache w) = (Some en, d)" for en d
    using foyer.get_resident [OF hl that] world_okD(4) [OF w] by (simp add: foyer_resident_def)
  moreover have "c_cached c j (ce_bytes en)"
    if "foyer_get (ex_hybrid x) key (w_cache w) = (r, d)" "res (fc_cache d) j en" for r d j en
    using foyer.get_frame [OF hl that(1), of j en] that(2) world_okD(4) [OF w]
    by (simp add: foyer_resident_def)
  ultimately show ?thesis
    using CacheGet op f w by (intro exI [of _ A]) (auto simp: world_ok_def split: prod.splits)
next
  case (CachePut key bs ct k)
  have "c_cached c j (ce_bytes en)"
    if "res (fc_cache (foyer_put (ex_hybrid x) key bs ct (w_cache w))) j en" for j en
    using foyer.put_resident [OF hl, of key bs ct "w_cache w" j en] that world_okD(4) [OF w] f CachePut
    by (auto simp: foyer_resident_def split: if_splits)
  then show ?thesis
    using CachePut op f w by (intro exI [of _ A]) (auto simp: world_ok_def)
next
  case (Acquire key k)
  show ?thesis
  proof (cases "inner (w_inflight w) key")
    case None
    let ?e = "next_eid (w_inflight w)"
    let ?g = "\<lparr>ig_key = key, ig_entry = ?e, ig_released = False\<rparr>"
    have "w' = w\<lparr>w_inflight := snd (acquire key (w_inflight w)), w_held := (w_held w)(t \<mapsto> ?g)\<rparr>"
      "p' = k (Leader ?g)" "q = None"
      using Acquire op None by (auto simp: acquire_def Let_def)
    with Acquire f world_ok_lead [OF w wf None refl] show ?thesis
      by (intro exI [of _ "A(?e \<mapsto> key)"]) simp
  next
    case (Some e)
    then have "w' = w" "p' = k (Follower e)" "q = None"
      using Acquire op by (auto simp: acquire_def)
    with Acquire f w world_okD(2) [OF w Some] show ?thesis by (intro exI [of _ A]) simp
  qed
next
  case (SetResult e r k)
  then show ?thesis
    using op f by (intro exI [of _ A]) (auto intro!: world_ok_inflight [OF w] split: if_splits)
next
  case (Release key e k)
  then show ?thesis
    using op f by (intro exI [of _ A])
      (auto intro!: world_ok_inflight [OF w] simp: inner_release split: if_splits)
next
  case (Notified e k)
  then show ?thesis
    using op f by (intro exI [of _ A]) (auto intro!: world_ok_inflight [OF w])
next
  case (Released k)
  then show ?thesis
    using op f w by (intro exI [of _ A]) (auto simp: world_ok_def split: option.splits)
next
  case (ReadResult e k)
  then show ?thesis
    using op f w world_okD(3) [OF w, of e] by (intro exI [of _ A]) auto
next
  case (StoreGet s l k)
  obtain r u where g: "up_get x s l (w_up w) = (r, u)" by (cases "up_get x s l (w_up w)")
  with x have "r = Inr h \<Longrightarrow> c_handle c s l h" for h by (simp add: outside_ok_def) blast
  moreover have "p' = k r" "q = None" "w' = w\<lparr>w_up := u\<rparr>"
    using StoreGet op g by (simp_all add: ask_def)
  ultimately show ?thesis using StoreGet f w by (intro exI [of _ A]) simp
next
  case (ReadBytes h k)
  obtain r u where g: "up_bytes x h (w_up w) = (r, u)" by (cases "up_bytes x h (w_up w)")
  with x have "r = Inr bs \<Longrightarrow> c_bytes c h bs" for bs by (simp add: outside_ok_def) blast
  moreover have "p' = k r" "q = None" "w' = w\<lparr>w_up := u\<rparr>"
    using ReadBytes op g by (simp_all add: ask_def)
  ultimately show ?thesis using ReadBytes f w by (intro exI [of _ A]) simp
qed (use op f w in \<open>auto simp: ask_def world_ok_def intro!: exI [of _ A] split: prod.splits if_splits\<close>)

definition sys_ok ::
    "('h \<Rightarrow> cache_key \<Rightarrow> cache_entry \<Rightarrow> bool) \<Rightarrow> contents \<Rightarrow> ('h, 'u) sys \<Rightarrow> bool" where
  "sys_ok res c s \<longleftrightarrow> (\<exists>A K. world_ok res c A (s_world s)
     \<and> (\<forall>t p. s_tasks s t = Some p \<longrightarrow> flow c (K t) p A)
     \<and> (\<forall>t rq. s_request s t = Some rq \<longrightarrow> K t = request_key rq))"

lemma sys_okI:
  "world_ok res c A (s_world s) \<Longrightarrow> (\<And>t p. s_tasks s t = Some p \<Longrightarrow> flow c (K t) p A) \<Longrightarrow>
     (\<And>t rq. s_request s t = Some rq \<Longrightarrow> K t = request_key rq) \<Longrightarrow> sys_ok res c s"
  unfolding sys_ok_def by blast

lemma sys_okE:
  assumes "sys_ok res c s"
  obtains A K where "world_ok res c A (s_world s)"
    and "\<And>t p. s_tasks s t = Some p \<Longrightarrow> flow c (K t) p A"
    and "\<And>t rq. s_request s t = Some rq \<Longrightarrow> K t = request_key rq"
  using assms unfolding sys_ok_def by blast

lemma sys_ok_spawn:
  assumes ids: "ids_ok s" and w: "world_ok res c A (s_world s)"
    and t: "\<And>t p. s_tasks s t = Some p \<Longrightarrow> flow c (K t) p A"
    and r: "\<And>t rq. s_request s t = Some rq \<Longrightarrow> K t = request_key rq"
    and q: "\<And>a. q = Some a \<Longrightarrow> flow c J a A"
  shows "sys_ok res c (spawn_task q s)"
proof (rule sys_okI [of _ _ A _ "K(s_next s := J)"])
  show "world_ok res c A (s_world (spawn_task q s))" using w by simp
next
  fix u p
  assume "s_tasks (spawn_task q s) u = Some p"
  then show "flow c ((K(s_next s := J)) u) p A"
    using t q ids by (auto simp: spawn_task_tasks ids_ok_def split: option.splits if_splits)
next
  fix u rq
  assume "s_request (spawn_task q s) u = Some rq"
  then show "(K(s_next s := J)) u = request_key rq"
    using r ids by (auto simp: ids_ok_def)
qed

lemma flow_release_task: "flow c K (release_task key e) A"
  by (simp add: release_task_def)

lemma sys_ok_step:
  assumes "sstep x res serve s s'" and "ids_ok s" and "inflight_wf (w_inflight (s_world s))"
    and "sys_ok res c s"
    and x: "outside_ok x c" and hl: "hybrid_lawful (ex_hybrid x) res"
    and serve: "\<And>rq p A t. serve rq = Some p \<Longrightarrow> s_request s' t = Some rq \<Longrightarrow> flow c (request_key rq) p A"
  shows "sys_ok res c s'"
  using assms(1-4) serve
proof (induction rule: sstep.induct)
  case (arrive rq p s)
  from arrive.prems(3) obtain A K where w: "world_ok res c A (s_world s)"
    and t: "\<And>t p. s_tasks s t = Some p \<Longrightarrow> flow c (K t) p A"
    and r: "\<And>t rq. s_request s t = Some rq \<Longrightarrow> K t = request_key rq" by (rule sys_okE) blast
  have "flow c (request_key rq) p A"
    using arrive.prems(4) [OF arrive.hyps, of "s_next s"] by simp
  then show ?case
    using w t r by (intro sys_okI [of _ _ A _ "K(s_next s := request_key rq)"]) (auto split: if_splits)
next
  case (operate s t p p' q w')
  from operate.prems(3) obtain A K where w: "world_ok res c A (s_world s)"
    and t: "\<And>t p. s_tasks s t = Some p \<Longrightarrow> flow c (K t) p A"
    and r: "\<And>t rq. s_request s t = Some rq \<Longrightarrow> K t = request_key rq" by (rule sys_okE) blast
  from flow_exec_op [OF operate.hyps(2) t [OF operate.hyps(1)] w operate.prems(2) x hl]
  obtain A' where A: "A \<subseteq>\<^sub>m A'" and w': "world_ok res c A' w'" and p: "flow c (K t) p' A'"
    and q: "\<forall>a. q = Some a \<longrightarrow> flow c (K t) a A'" by blast
  show ?case
  proof (rule sys_ok_spawn [where A = A' and K = K and J = "K t"])
    show "ids_ok (put_task t (Some p') (s\<lparr>s_world := w'\<rparr>))"
      using operate.prems(1) operate.hyps(1) by (simp add: ids_ok_put)
  next
    fix u p1
    assume "s_tasks (put_task t (Some p') (s\<lparr>s_world := w'\<rparr>)) u = Some p1"
    then show "flow c (K u) p1 A'"
      using p t [of u p1] flow_mono [OF A, of c "K u" p1] by (cases "u = t") simp_all
  qed (use w' q r in simp_all)
next
  case (finish s t r)
  from finish.prems(3) obtain A K where w: "world_ok res c A (s_world s)"
    and t: "\<And>t p. s_tasks s t = Some p \<Longrightarrow> flow c (K t) p A"
    and r: "\<And>t rq. s_request s t = Some rq \<Longrightarrow> K t = request_key rq" by (rule sys_okE) blast
  then show ?case by (intro sys_okI [of _ _ A _ K]) (simp_all split: if_splits)
next
  case (disconnect s t p)
  from disconnect.prems(3) obtain A K where w: "world_ok res c A (s_world s)"
    and t: "\<And>t p. s_tasks s t = Some p \<Longrightarrow> flow c (K t) p A"
    and r: "\<And>t rq. s_request s t = Some rq \<Longrightarrow> K t = request_key rq" by (rule sys_okE) blast
  let ?s = "put_task t None (s\<lparr>s_world := (s_world s)\<lparr>w_held := (w_held (s_world s))(t := None)\<rparr>\<rparr>)"
  have "sys_ok res c (spawn_task q ?s)" if "\<And>a. q = Some a \<Longrightarrow> \<exists>k e. a = release_task k e" for q
  proof (rule sys_ok_spawn [where A = A and K = K and J = "K t"])
    show "ids_ok ?s" using disconnect.prems(1) disconnect.hyps(1) by (simp add: ids_ok_put)
    show "world_ok res c A (s_world ?s)" using w by (simp add: world_ok_def)
  qed (use that t r flow_release_task in \<open>auto split: if_splits\<close>)
  then show ?case
    unfolding drop_task_def Let_def
    by (rule meta_mp) (auto simp: drop_guard_def split: option.splits prod.splits)
next
  case (outside h s u)
  from outside.prems(3) obtain A K where w: "world_ok res c A (s_world s)"
    and t: "\<And>t p. s_tasks s t = Some p \<Longrightarrow> flow c (K t) p A"
    and r: "\<And>t rq. s_request s t = Some rq \<Longrightarrow> K t = request_key rq" by (rule sys_okE) blast
  have "world_ok res c A ((s_world s)\<lparr>w_cache := (w_cache (s_world s))\<lparr>fc_cache := h\<rparr>, w_up := u\<rparr>)"
    using w outside.hyps unfolding world_ok_def by simp
  with t r show ?case by (intro sys_okI [of _ _ A _ K]) simp_all
qed

lemma request_mono:
  "sstep x res serve s s' \<Longrightarrow> ids_ok s \<Longrightarrow> s_request s t = Some rq \<Longrightarrow> s_request s' t = Some rq"
  by (elim sstepE) (auto simp: ids_ok_def drop_task_def Let_def)

lemma reachable_sys_ok:
  assumes "reachable x res (run_server l a enc utf st) h0 u0 s"
    and c: "contents_ok l st c" and x: "outside_ok x c" and hl: "hybrid_lawful (ex_hybrid x) res"
    and h0: "\<And>k en. res h0 k en \<Longrightarrow> c_cached c k (ce_bytes en)"
    and rq: "\<And>t rq. s_request s t = Some rq \<Longrightarrow> request_ok l a st c rq"
  shows "sys_ok res c s"
  using assms(1) rq
proof (induction rule: reachable.induct)
  case start
  have "world_ok res c (\<lambda>_. None) (world_init h0 u0)"
    using h0 by (simp add: world_ok_def) (simp add: entry_result_def inflight_new_def)
  then show ?case by (intro sys_okI [of _ _ "\<lambda>_. None" _ "\<lambda>_. cache_key_new [] []"]) simp_all
next
  case (step s s')
  have "flight_inv s" using step.hyps(1) by (rule reachable_flight_inv) (rule disc_run_server)
  then have wf: "inflight_wf (w_inflight (s_world s))"
    using flight_coreD(1) by (rule flight_invE) blast
  have ids: "ids_ok s" by (rule reachable_ids_ok [OF step.hyps(1)])
  have "sys_ok res c s"
    by (rule step.IH) (rule step.prems [OF request_mono [OF step.hyps(2) ids]])
  then show ?case
    by (rule sys_ok_step [OF step.hyps(2) ids wf _ x hl])
       (rule flow_run_server [OF c _ step.prems])
qed

section \<open>Isolation\<close>

text \<open>
  What the upstream promises: a handle opened for a location yields only bytes that the store has
  held under that location (\<open>stored\<close>).
\<close>

definition upstream_faithful ::
    "('h, 'u) externals \<Rightarrow> (store_ref \<Rightarrow> location \<Rightarrow> bytes \<Rightarrow> bool) \<Rightarrow> bool" where
  "upstream_faithful x stored \<longleftrightarrow>
     (\<exists>H. (\<forall>s l u h u'. up_get x s l u = (Inr h, u') \<longrightarrow> H s l h)
        \<and> (\<forall>s l h u bs u'. H s l h \<longrightarrow> up_bytes x h u = (Inr bs, u') \<longrightarrow> stored s l bs))"

text \<open>
  The bytes a key may have: the configured store of its bucket has held them under its path, or a
  request with valid credentials brought them as an upload to this very key (which the store may
  have refused).
\<close>

definition authentic ::
    "http_libs \<Rightarrow> 'vk auth_libs \<Rightarrow> 'vk app_state \<Rightarrow> (store_ref \<Rightarrow> location \<Rightarrow> bytes \<Rightarrow> bool)
      \<Rightarrow> (tid \<Rightarrow> request option) \<Rightarrow> cache_key \<Rightarrow> bytes \<Rightarrow> bool" where
  "authentic l a st stored rqs key bs \<longleftrightarrow>
     (\<exists>s. as_stores st (ck_bucket_id key) = Some s \<and> stored s (path_into l (ck_path key)) bs)
     \<or> (\<exists>t rq. rqs t = Some rq \<and> uploads l a st rq key bs)"

text \<open>
  A hybrid cache on disk may start with what an earlier run left there. What is asked of such an
  entry is that the store which now answers for its bucket has held it: the earlier run may have had
  another cap, but not another store under the same name.
\<close>

definition recovered_authentic ::
    "http_libs \<Rightarrow> 'vk app_state \<Rightarrow> (store_ref \<Rightarrow> location \<Rightarrow> bytes \<Rightarrow> bool)
      \<Rightarrow> ('h \<Rightarrow> cache_key \<Rightarrow> cache_entry \<Rightarrow> bool) \<Rightarrow> 'h \<Rightarrow> bool" where
  "recovered_authentic l st stored res h0 \<longleftrightarrow>
     (\<forall>k en. res h0 k en \<longrightarrow>
        (\<exists>s. as_stores st (ck_bucket_id k) = Some s \<and> stored s (path_into l (ck_path k)) (ce_bytes en)))"

lemma recovered_authenticD:
  "recovered_authentic l st stored res h0 \<Longrightarrow> res h0 k en \<Longrightarrow> authentic l a st stored rqs k (ce_bytes en)"
  by (auto simp: recovered_authentic_def authentic_def)

lemma recovered_authentic_empty:
  "(\<And>k en. \<not> res h0 k en) \<Longrightarrow> recovered_authentic l st stored res h0"
  by (simp add: recovered_authentic_def)

definition cached_bytes ::
    "http_libs \<Rightarrow> 'vk auth_libs \<Rightarrow> 'vk app_state \<Rightarrow> (store_ref \<Rightarrow> location \<Rightarrow> bytes \<Rightarrow> bool)
      \<Rightarrow> ('h \<Rightarrow> cache_key \<Rightarrow> cache_entry \<Rightarrow> bool) \<Rightarrow> 'h \<Rightarrow> (tid \<Rightarrow> request option) \<Rightarrow> cache_key \<Rightarrow> bytes \<Rightarrow> bool" where
  "cached_bytes l a st stored res h0 rqs key bs \<longleftrightarrow> authentic l a st stored rqs key bs
     \<and> (length bs \<le> unat (as_cache_max_object_bytes st) \<or> (\<exists>en. res h0 key en \<and> bs = ce_bytes en))"

lemma authentic_sys_ok:
  assumes r: "reachable x res (run_server l a enc utf st) h0 u0 s"
    and hl: "hybrid_lawful (ex_hybrid x) res" and up: "upstream_faithful x stored"
    and h0: "recovered_authentic l st stored res h0"
  shows "\<exists>c. sys_ok res c s \<and> c_served c = authentic l a st stored (s_request s)
    \<and> c_cached c = cached_bytes l a st stored res h0 (s_request s)"
proof -
  from up obtain H where H: "\<And>s l u h u'. up_get x s l u = (Inr h, u') \<Longrightarrow> H s l h"
    "\<And>s l h u bs u'. H s l h \<Longrightarrow> up_bytes x h u = (Inr bs, u') \<Longrightarrow> stored s l bs"
    unfolding upstream_faithful_def by blast
  define c where "c = \<lparr>c_served = authentic l a st stored (s_request s),
    c_cached = cached_bytes l a st stored res h0 (s_request s),
    c_bytes = (\<lambda>h bs. \<forall>s l. H s l h \<longrightarrow> stored s l bs), c_handle = H\<rparr>"
  have "sys_ok res c s"
  proof (rule reachable_sys_ok [OF r _ _ hl])
    show "contents_ok l st c" unfolding contents_ok_def c_def by (auto simp: authentic_def cached_bytes_def)
    show "outside_ok x c" unfolding outside_ok_def c_def using H by (auto simp: authentic_def)
    show "c_cached c k (ce_bytes en)" if "res h0 k en" for k en
      using recovered_authenticD [OF h0 that] that by (auto simp: c_def cached_bytes_def)
    show "request_ok l a st c rq" if "s_request s t = Some rq" for t rq
      using that unfolding request_ok_def c_def by (auto simp: authentic_def cached_bytes_def)
  qed
  then show ?thesis by (intro exI [of _ c]) (simp add: c_def)
qed

section \<open>A request on the read-only store\<close>

lemmas get_object_defs = get_object_def get_object_leader_def respond_fetched_def complete_def
  fetch_and_cache_entry_def upstream_failed_def upstream_succeeded_def finish_def


lemma ro_faithful: "upstream_faithful ro_externals (\<lambda>s l bs. mem_objects (s, l) = Some bs)"
  unfolding upstream_faithful_def
  by (rule exI [of _ "\<lambda>s l h. mem_objects (s, l) = Some (map of_nat [1..<Suc h])"])
     (auto simp: ro_get_def ro_bytes_def mem_objects_def upt_rec split: option.splits if_splits)

lemma mem_get_run:
  "\<exists>w. run ro_externals 0 (UnixTime (\<lambda>now. get_object mem_libs mem_app (lit ''b'') (lit ''a.txt'')))
     (world_init Map.empty (mem_store_new mem_objects))
   = (Done (Respond (Inr (build_response mem_libs (cache_entry_new [1, 2, 3]
        (Some (lit ''application/octet-stream''))) False))), [], w)
   \<and> fc_cache (w_cache w) mem_key = Some (cache_entry_new [1, 2, 3] (Some (lit ''application/octet-stream'')))"
  by (simp add: get_object_defs exec_simps run_Acquire_Leader Let_def mem_object_path mem_foyer_get mem_foyer_put
     ro_get_def ro_bytes_def mem_objects_def resolve_content_type_def world_init_def inflight_new_def
     upt_rec mem_instant_def mem_unix_def)


lemma mem_get_done:
  "\<exists>s. reachable ro_externals mem_resident mem_serve Map.empty (mem_store_new mem_objects) s
     \<and> s_request s = [0 \<mapsto> mem_get_request]
     \<and> s_tasks s 0 = Some (Done (Respond (Inr (build_response mem_libs (cache_entry_new [1, 2, 3]
        (Some (lit ''application/octet-stream''))) False))))
     \<and> foyer_resident mem_resident (w_cache (s_world s)) mem_key
        (cache_entry_new [1, 2, 3] (Some (lit ''application/octet-stream'')))"
proof -
  obtain w where w: "run ro_externals 0 (UnixTime (\<lambda>now. get_object mem_libs mem_app (lit ''b'') (lit ''a.txt'')))
      (world_init Map.empty (mem_store_new mem_objects))
    = (Done (Respond (Inr (build_response mem_libs (cache_entry_new [1, 2, 3]
        (Some (lit ''application/octet-stream''))) False))), [], w)"
    "fc_cache (w_cache w) mem_key = Some (cache_entry_new [1, 2, 3] (Some (lit ''application/octet-stream'')))"
    using mem_get_run by blast
  from arrive_and_run [of mem_serve mem_get_request, OF mem_serve_get, of ro_externals mem_resident
      Map.empty "mem_store_new mem_objects"] w
  show ?thesis by (auto simp: foyer_resident_def mem_resident_def)
qed

section \<open>The properties\<close>

text \<open>
  C2: whatever the interleaving, the body a client gets for a key is a body of that key: either the
  store of the key's bucket has held it under the key's path, or a request with valid credentials
  brought it as an upload to the key.
  Neither the cache nor the sharing of a leader's result mixes keys up.
\<close>

theorem get_isolated:
  assumes "reachable x res (run_server l a enc utf st) h0 u0 s"
    and "hybrid_lawful (ex_hybrid x) res" and "upstream_faithful x stored"
    and "recovered_authentic l st stored res h0"
    and "s_tasks s t = Some (Done (Respond (Inr r)))" and "s_request s t = Some rq"
    and "rs_body r = BytesBody bs"
  shows "authentic l a st stored (s_request s) (request_key rq) bs"
proof -
  obtain c where c: "sys_ok res c s" "c_served c = authentic l a st stored (s_request s)"
    using authentic_sys_ok [OF assms(1-4)] by blast
  from c(1) obtain A K where "flow c (K t) (Done (Respond (Inr r))) A" "K t = request_key rq"
    by (rule sys_okE) (use assms(5,6) in blast)
  then show ?thesis using assms(7) c(2) by simp
qed

theorem get_isolated_witness:
  "\<exists>s. reachable ro_externals mem_resident mem_serve Map.empty (mem_store_new mem_objects) s
     \<and> authentic mem_libs mem_auth mem_app (\<lambda>s l bs. mem_objects (s, l) = Some bs) (s_request s) mem_key [1, 2, 3]"
proof -
  obtain s where s: "reachable ro_externals mem_resident mem_serve Map.empty (mem_store_new mem_objects) s"
    "s_request s = [0 \<mapsto> mem_get_request]"
    "s_tasks s 0 = Some (Done (Respond (Inr (build_response mem_libs (cache_entry_new [1, 2, 3]
        (Some (lit ''application/octet-stream''))) False))))"
    using mem_get_done by blast
  have "authentic mem_libs mem_auth mem_app (\<lambda>s l bs. mem_objects (s, l) = Some bs) (s_request s)
      (request_key mem_get_request) [1, 2, 3]"
    by (rule get_isolated [OF s(1) [unfolded mem_serve_def] _ ro_faithful _ s(3)])
       (simp_all add: mem_hybrid_lawful mem_resident_def recovered_authentic_empty s(2))
  then show ?thesis using s(1) by (auto simp: request_key_def mem_get_request_def)
qed

lemma cached_authentic:
  assumes "reachable x res (run_server l a enc utf st) h0 u0 s"
    and "hybrid_lawful (ex_hybrid x) res" and "upstream_faithful x stored"
    and "recovered_authentic l st stored res h0"
    and "foyer_resident res (w_cache (s_world s)) key en"
  shows "authentic l a st stored (s_request s) key (ce_bytes en)
    \<and> (length (ce_bytes en) \<le> unat (as_cache_max_object_bytes st)
       \<or> (\<exists>en'. res h0 key en' \<and> ce_bytes en = ce_bytes en'))"
proof -
  obtain c where c: "sys_ok res c s" "c_cached c = cached_bytes l a st stored res h0 (s_request s)"
    using authentic_sys_ok [OF assms(1-4)] by blast
  from c(1) obtain A where "world_ok res c A (s_world s)" by (rule sys_okE)
  with assms(5) have "c_cached c key (ce_bytes en)"
    by (auto simp: foyer_resident_def dest: world_okD(4))
  then show ?thesis by (simp add: c(2) cached_bytes_def)
qed

text \<open>
  C13: at any moment, every entry that is in the cache is a body of its key, and unless an earlier run
  left it on disk it is no longer than the configured cap on cached objects.
\<close>

theorem cache_within_cap:
  assumes "reachable x res (run_server l a enc utf st) h0 u0 s"
    and "hybrid_lawful (ex_hybrid x) res" and "upstream_faithful x stored"
    and "recovered_authentic l st stored res h0"
    and "foyer_resident res (w_cache (s_world s)) key en"
  shows "authentic l a st stored (s_request s) key (ce_bytes en)
    \<and> (length (ce_bytes en) \<le> unat (as_cache_max_object_bytes st)
       \<or> (\<exists>en'. res h0 key en' \<and> ce_bytes en = ce_bytes en'))"
  using assms by (rule cached_authentic)

theorem cache_within_cap_witness:
  "\<exists>s. reachable ro_externals mem_resident mem_serve Map.empty (mem_store_new mem_objects) s
     \<and> authentic mem_libs mem_auth mem_app (\<lambda>s l bs. mem_objects (s, l) = Some bs) (s_request s) mem_key [1, 2, 3]
     \<and> length ([1, 2, 3] :: bytes) \<le> unat (as_cache_max_object_bytes mem_app)"
proof -
  obtain s where s: "reachable ro_externals mem_resident mem_serve Map.empty (mem_store_new mem_objects) s"
    "foyer_resident mem_resident (w_cache (s_world s)) mem_key
        (cache_entry_new [1, 2, 3] (Some (lit ''application/octet-stream'')))"
    using mem_get_done by blast
  have h: "hybrid_lawful (ex_hybrid ro_externals) mem_resident"
    by (simp add: mem_hybrid_lawful)
  have e: "recovered_authentic mem_libs mem_app (\<lambda>s l bs. mem_objects (s, l) = Some bs)
      mem_resident Map.empty"
    by (rule recovered_authentic_empty) (simp add: mem_resident_def)
  from cache_within_cap [OF s(1) [unfolded mem_serve_def] h ro_faithful e s(2)] s(1)
  show ?thesis by (auto simp: mem_resident_def)
qed

end
