(* ===== verification/Requests.thy ===== *)
theory Requests
  imports Isolation
begin

text \<open>
  What each request does when nothing disturbs it, on every branch: the answer, the calls to the
  metrics registry, and what is left of the cache, the in-flight table and the object store. The
  upstream half of a fetch is stated once (\<open>upstream_read\<close>, \<open>run_fetch_and_cache\<close>) and shared by
  \<open>GET\<close> and the prefetch of \<open>HEAD\<close>.
\<close>

section \<open>The middleware\<close>

text \<open>
  C4: the object route is guarded. A request without valid credentials is answered 401 before any
  handler runs: the cache, the in-flight table and the object store are as they were, and one
  authentication failure is counted. With valid credentials the handler runs.
\<close>

theorem object_route_guarded:
  assumes "rq_matched_path rq = Some object_route" and "rq_method rq \<in> protected_methods"
    and "rq_path_params rq = Some (b, p)" and "rq_query rq = Some params"
  shows "\<exists>prog. run_server l a enc utf st rq = Some prog \<and>
    run x t prog w =
      (let (now, u) = clock_unix x (w_up w) in
       case authenticate a (as_auth st) now (rq_method rq) b p
              (parse_bearer_token l (rq_headers rq)) (params (lit ''sig'')) of
         Inl err \<Rightarrow> (Done (Respond (Inl (unauthorized (lit ''invalid auth'')))), [],
           w\<lparr>w_up := u, w_metrics := w_metrics w @ [inc_auth_fail (rq_method rq)]\<rparr>)
       | Inr m \<Rightarrow> run x t (the (object_handler l st rq)) (w\<lparr>w_up := u\<rparr>))"
proof -
  obtain h where h: "object_handler l st rq = Some h"
    using assms(2-4) by (auto simp: object_handler_def protected_methods_def)
  obtain now u where "clock_unix x (w_up w) = (now, u)" by (cases "clock_unix x (w_up w)")
  with assms show ?thesis
    by (simp add: run_server_def auth_middleware_def h exec_simps Let_def split: sum.split)
qed

theorem object_route_guarded_witness:
  "\<exists>prog w. run_server mem_libs mem_auth (\<lambda>_. None) (\<lambda>_. None) mem_app
       (mem_request (lit ''bad'') (lit ''GET'') (lit ''a.txt'') []) = Some prog
     \<and> run mem_externals 0 prog mem_world
        = (Done (Respond (Inl (unauthorized (lit ''invalid auth'')))), [], w)
     \<and> w_metrics w = [inc_auth_fail (lit ''GET'')] \<and> w_cache w = w_cache mem_world"
proof -
  let ?rq = "mem_request (lit ''bad'') (lit ''GET'') (lit ''a.txt'') []"
  have m: "rq_method ?rq \<in> protected_methods" by (simp add: protected_methods_def)
  obtain prog where prog: "run_server mem_libs mem_auth (\<lambda>_. None) (\<lambda>_. None) mem_app ?rq = Some prog"
    and run: "run mem_externals 0 prog mem_world =
      (let (now, u) = clock_unix mem_externals (w_up mem_world) in
       case authenticate mem_auth (as_auth mem_app) now (rq_method ?rq) (lit ''b'') (lit ''a.txt'')
              (parse_bearer_token mem_libs (rq_headers ?rq)) (Map.empty (lit ''sig'')) of
         Inl err \<Rightarrow> (Done (Respond (Inl (unauthorized (lit ''invalid auth'')))), [],
           mem_world\<lparr>w_up := u, w_metrics := w_metrics mem_world @ [inc_auth_fail (rq_method ?rq)]\<rparr>)
       | Inr m \<Rightarrow> run mem_externals 0 (the (object_handler mem_libs mem_app ?rq)) (mem_world\<lparr>w_up := u\<rparr>))"
    using object_route_guarded [of ?rq "lit ''b''" "lit ''a.txt''" Map.empty mem_libs mem_auth
        "\<lambda>_. None" "\<lambda>_. None" mem_app mem_externals 0 mem_world] m by auto
  have "authenticate mem_auth (as_auth mem_app) now (lit ''GET'') (lit ''b'') (lit ''a.txt'')
      (Some (lit ''bad'')) None = Inl InvalidBearer" for now
    by (simp add: authenticate_def try_bearer_cases)
  with prog run show ?thesis
    by (simp add: mem_bearer_bad mem_world_def split: prod.splits)
qed

section \<open>Reading upstream\<close>

text \<open>
  The two calls of a fetch with the clock read around them: what was read or the error, the
  milliseconds recorded, and the outside after it.
\<close>

definition upstream_read ::
    "('h, 'u) externals \<Rightarrow> store_ref \<Rightarrow> location \<Rightarrow> 'u \<Rightarrow> (store_error + bytes) \<times> u64 \<times> 'u" where
  "upstream_read x s loc u =
     (let (start, u1) = clock_instant x u;
          (got, u2) = up_get x s loc u1;
          (read, u3) = (case got of Inl err \<Rightarrow> (Inl err, u2) | Inr h \<Rightarrow> up_bytes x h u2);
          (now, u4) = clock_instant x u3
      in (read, elapsed_ms start now, u4))"

definition fetch_events :: "rstr \<Rightarrow> u64 \<Rightarrow> (store_error + 'a) \<Rightarrow> metric_event list" where
  "fetch_events m ms r =
     [observe_upstream_latency_ms m ms,
      (case r of Inl err \<Rightarrow> inc_upstream_err m (from_store_error err) | Inr _ \<Rightarrow> inc_upstream_ok m)]"

definition fetched :: "http_libs \<Rightarrow> rstr \<Rightarrow> store_error + bytes \<Rightarrow> inflight_result" where
  "fetched l p r =
     (case r of
        Inl err \<Rightarrow> Inl (from_store err)
      | Inr bs \<Rightarrow> Inr (cache_entry_new bs (Some (resolve_content_type l p bs))))"

text \<open>A body goes to the cache if caching is on and it is within the cap.\<close>

definition cacheable :: "'vk app_state \<Rightarrow> bytes \<Rightarrow> bool" where
  "cacheable st bs \<longleftrightarrow>
     as_cache_max_object_bytes st \<noteq> 0 \<and> length bs \<le> unat (as_cache_max_object_bytes st)"

definition fetch_cache ::
    "('h, 'u) externals \<Rightarrow> http_libs \<Rightarrow> 'vk app_state \<Rightarrow> cache_key \<Rightarrow> rstr \<Rightarrow> store_error + bytes
      \<Rightarrow> 'h foyer_cache \<Rightarrow> 'h foyer_cache" where
  "fetch_cache x l st key p r c =
     (case r of
        Inl err \<Rightarrow> c
      | Inr bs \<Rightarrow>
          if cacheable st bs
          then foyer_put (ex_hybrid x) key bs (Some (resolve_content_type l p bs)) c else c)"

lemma run_fetch_and_cache:
  assumes "as_stores st b = Some s" and "upstream_read x s (path_into l p) (w_up w) = (r, ms, u)"
  shows "run x t (fetch_and_cache_entry l st key b p m k) w =
    run x t (k (fetched l p r))
      (w\<lparr>w_up := u, w_metrics := w_metrics w @ fetch_events m ms r,
         w_cache := fetch_cache x l st key p r (w_cache w)\<rparr>)"
  using assms
  by (auto simp: upstream_read_def fetch_and_cache_entry_def upstream_failed_def
      upstream_succeeded_def exec_simps fetch_events_def fetched_def fetch_cache_def cacheable_def
      unat_eq_zero Let_def not_less split: prod.splits sum.splits)

lemma run_fetch_unknown:
  "as_stores st b = None \<Longrightarrow>
     run x t (fetch_and_cache_entry l st key b p m k) w
       = run x t (k (Inl (not_found (lit ''unknown bucket'')))) w"
  by (simp add: fetch_and_cache_entry_def)

section \<open>\<open>GET\<close>\<close>

lemma response_status [simp]:
  "rs_status (build_response l en hit) = 200" "rs_status (build_head_response l en) = 200"
  "rs_status (build_head_response_with_meta l n ct) = 200" "rs_status build_put_response = 200"
  by (simp_all add: build_response_def build_head_response_def build_head_response_with_meta_def
      build_put_response_def with_content_type_def with_content_length_def Let_def
      split: option.split)

lemma dec_statuses: "dec 200 = lit ''200''" "dec 400 = lit ''400''" "dec 404 = lit ''404''"
  "dec 502 = lit ''502''"
  by (simp_all add: dec.simps lit_def)

lemma status_labels [simp]:
  "status_label (Inl (bad_request m)) = lit ''400''" "status_label (Inl (not_found m)) = lit ''404''"
  "rs_status r = 200 \<Longrightarrow> status_label (Inr r) = lit ''200''"
  by (simp_all add: status_label_def bad_request_def not_found_def dec_statuses)

lemma invalid_object_path_iff:
  "invalid_object_path p \<longleftrightarrow>
     p = [] \<or> (\<exists>a c. p = a @ lit ''..'' @ c) \<or> (\<exists>c. p = lit ''/'' @ c)"
  by (simp add: invalid_object_path_def contains_iff starts_with_iff)

lemma run_finish [exec_simps]:
  "run x t (finish m r) w = (Done (Respond r), [],
     w\<lparr>w_metrics := w_metrics w @ [inc_requests m (status_label r)]\<rparr>)"
  by (simp add: finish_def exec_simps)

text \<open>
  A path that is empty, absolute or contains two dots in a row is refused with 400 by all three
  handlers, which touch nothing but the request counter.
\<close>

lemma invalid_path_refused:
  assumes "p = [] \<or> (\<exists>a c. p = a @ lit ''..'' @ c) \<or> (\<exists>c. p = lit ''/'' @ c)"
  shows "get_object l st b p = finish (lit ''GET'') (Inl (bad_request (lit ''invalid object path'')))
    \<and> head_object l st b p params = finish (lit ''HEAD'') (Inl (bad_request (lit ''invalid object path'')))
    \<and> put_object l st b p hs body = finish (lit ''PUT'') (Inl (bad_request (lit ''invalid object path'')))
    \<and> run x t (get_object l st b p) w = (Done (Respond (Inl (bad_request (lit ''invalid object path'')))), [],
        w\<lparr>w_metrics := w_metrics w @ [inc_requests (lit ''GET'') (lit ''400'')]\<rparr>)"
  using assms invalid_object_path_iff [of p]
  by (simp add: get_object_def head_object_def put_object_def exec_simps)

lemma run_get_hit:
  assumes "\<not> invalid_object_path p"
    and "foyer_get (ex_hybrid x) (cache_key_new b p) (w_cache w) = (Some en, c)"
  shows "run x t (get_object l st b p) w =
    (Done (Respond (Inr (build_response l en True))), [],
     w\<lparr>w_cache := c, w_metrics := w_metrics w @
        [inc_cache_hit (lit ''GET''), inc_requests (lit ''GET'') (lit ''200'')]\<rparr>)"
  using assms by (simp add: get_object_def exec_simps Let_def)

text \<open>
  C14: an undisturbed \<open>GET\<close> that misses leads the fetch: one miss, one latency and one upstream
  outcome are counted, the answer is the upstream's body (or its error, 404 or 502), the body is
  cached exactly if it is within the cap, and the in-flight table and the guards are as before.
\<close>

theorem get_miss:
  assumes "\<not> invalid_object_path p"
    and "foyer_get (ex_hybrid x) (cache_key_new b p) (w_cache w) = (None, c)"
    and "inner (w_inflight w) (cache_key_new b p) = None" and "w_held w t = None"
    and "as_stores st b = Some s" and "upstream_read x s (path_into l p) (w_up w) = (r, ms, u)"
    and "answer = result_map (\<lambda>en. build_response l en False) (fetched l p r)"
  shows "\<exists>i. run x t (get_object l st b p) w = (Done (Respond answer), [],
      w\<lparr>w_up := u, w_cache := fetch_cache x l st (cache_key_new b p) p r c, w_inflight := i,
        w_metrics := w_metrics w @ inc_cache_miss (lit ''GET'') # fetch_events (lit ''GET'') ms r
          @ [inc_requests (lit ''GET'') (status_label answer)]\<rparr>)
    \<and> inner i = inner (w_inflight w)"
proof -
  let ?key = "cache_key_new b p" and ?e = "next_eid (w_inflight w)"
  let ?i = "release ?key ?e (set_result ?e (fetched l p r) (snd (acquire ?key (w_inflight w))))"
  have "inner ?i = inner (w_inflight w)"
    using assms(3) by (simp add: inner_release acquire_def Let_def fun_upd_idem)
  moreover have "run x t (get_object l st b p) w = (Done (Respond answer), [],
      w\<lparr>w_up := u, w_cache := fetch_cache x l st ?key p r c, w_inflight := ?i,
        w_metrics := w_metrics w @ inc_cache_miss (lit ''GET'') # fetch_events (lit ''GET'') ms r
          @ [inc_requests (lit ''GET'') (status_label answer)]\<rparr>)"
    using assms
    by (simp add: get_object_def get_object_leader_def exec_simps run_Acquire_Leader Let_def
        run_fetch_and_cache complete_def respond_fetched_def acquire_def fun_upd_idem)
  ultimately show ?thesis by blast
qed

text \<open>A leader that finds its bucket unknown answers 404, is counted, and leaves the table as it was.\<close>

lemma get_unknown_bucket:
  assumes "\<not> invalid_object_path p" "as_stores st b = None"
    and "foyer_get (ex_hybrid x) (cache_key_new b p) (w_cache w) = (None, c)"
    and "inner (w_inflight w) (cache_key_new b p) = None"
  shows "\<exists>v. run x t (get_object l st b p) w = (Done (Respond (Inl (not_found (lit ''unknown bucket'')))), [], v)
    \<and> w_up v = w_up w \<and> inner (w_inflight v) = inner (w_inflight w)
    \<and> w_metrics v = w_metrics w @ [inc_cache_miss (lit ''GET''), inc_requests (lit ''GET'') (lit ''404'')]"
  using assms
  by (simp add: get_object_def get_object_leader_def exec_simps run_Acquire_Leader Let_def
      run_fetch_unknown complete_def respond_fetched_def acquire_def inner_release fun_upd_idem)

lemma mem_read:
  "\<exists>u. upstream_read mem_externals 0 (lit ''a.txt'') (mem_store_new mem_objects) = (Inr [1, 2, 3], 1, u)"
  by (simp add: upstream_read_def mem_store_defs mem_objects_def elapsed_ms_def)

lemma mem_world_sel [simp]:
  "w_up mem_world = mem_store_new mem_objects" "fc_cache (w_cache mem_world) = Map.empty"
  "w_inflight mem_world = inflight_new" "w_held mem_world = (\<lambda>_. None)" "w_metrics mem_world = []"
  by (simp_all add: mem_world_def)

lemma mem_world_miss: "foyer_get (ex_hybrid mem_externals) k (w_cache mem_world) = (None, w_cache mem_world)"
  by (simp add: mem_foyer_get)

theorem get_miss_witness:
  "\<exists>w ct. run mem_externals 0 (get_object mem_libs mem_app (lit ''b'') (lit ''a.txt'')) mem_world =
       (Done (Respond (Inr (build_response mem_libs (cache_entry_new [1, 2, 3] ct) False))), [], w)
     \<and> fc_cache (w_cache w) mem_key = Some (cache_entry_new [1, 2, 3] ct)
     \<and> length (w_metrics w) = 4"
proof -
  obtain u where u: "upstream_read mem_externals 0 (path_into mem_libs (lit ''a.txt'')) (w_up mem_world)
      = (Inr [1, 2, 3], 1, u)" using mem_read by auto
  have s: "as_stores mem_app (lit ''b'') = Some 0" by simp
  have i: "inner (w_inflight mem_world) k = None" for k by (simp add: inflight_new_def)
  from get_miss [OF mem_object_path(1) mem_world_miss i _ s u refl, of 0]
  show ?thesis
    by (auto simp: fetched_def fetch_cache_def cacheable_def mem_foyer_put fetch_events_def)
qed

text \<open>
  C16: a \<open>GET\<close> of an object in flight makes no upstream call of its own: it registers with the
  entry of the key and waits. When woken it answers the cached body if the cache has one by then,
  the leader's body otherwise, the leader's error if the leader failed; only if the leader was
  dropped without a result does it fetch itself.
\<close>

theorem get_follows:
  assumes "\<not> invalid_object_path p"
    and "foyer_get (ex_hybrid x) (cache_key_new b p) (w_cache w) = (None, c)"
    and "inner (w_inflight w) (cache_key_new b p) = Some e" and "inflight_wf (w_inflight w)"
    and "\<not> entry_woken t e (w_inflight w)"
    and "blocked = AwaitNotified e (ReadResult e (get_object_waited l st b p))"
    and "entry_woken t e (w_inflight v)"
  shows "run x t (get_object l st b p) w = (blocked, [],
      w\<lparr>w_cache := c, w_metrics := w_metrics w @ [inc_cache_miss (lit ''GET'')],
        w_inflight := entry_notified t e (w_inflight w)\<rparr>)
    \<and> run x t blocked v = (case entry_result e (w_inflight v) of
        Some (Inr en) \<Rightarrow>
          (let (again, d) = foyer_get (ex_hybrid x) (cache_key_new b p) (w_cache v) in
           run x t (finish (lit ''GET'') (Inr (case again of
             Some cached \<Rightarrow> build_response l cached True
           | None \<Rightarrow> build_response l en False))) (v\<lparr>w_cache := d\<rparr>))
      | Some (Inl err) \<Rightarrow> run x t (finish (lit ''GET'') (Inl err)) v
      | None \<Rightarrow> run x t (fetch_and_cache_entry l st (cache_key_new b p) b p (lit ''GET'')
                  (respond_fetched l)) v)"
proof -
  have "heap (w_inflight w) e \<noteq> None" using assms(3,4) unfolding inflight_wf_def by blast
  with assms(5) have "\<not> entry_woken t e (entry_notified t e (w_inflight w))"
    by (auto simp: entry_woken_def entry_notified_def heap_update_entry nf.register)
  with assms show ?thesis
    by (auto simp: get_object_def wait_def exec_simps run_Acquire_Follower Let_def
        get_object_waited_def split: prod.split option.split sum.split)
qed

definition mem_table :: "bool \<Rightarrow> inflight_result inflight" where
  "mem_table done =
     (let i = snd (acquire mem_key inflight_new); r = entry_notified 1 0 i in
      if done then release mem_key 0 (set_result 0 (Inl (not_found (lit ''object not found''))) r) else i)"

theorem get_follows_witness:
  "run mem_externals 1 (AwaitNotified 0 (ReadResult 0 (get_object_waited mem_libs mem_app (lit ''b'') (lit ''a.txt''))))
       (mem_world\<lparr>w_inflight := mem_table True\<rparr>)
     = (Done (Respond (Inl (not_found (lit ''object not found'')))), [],
        mem_world\<lparr>w_inflight := mem_table True, w_metrics := [inc_requests (lit ''GET'') (lit ''404'')]\<rparr>)"
proof -
  let ?w = "mem_world\<lparr>w_inflight := mem_table False\<rparr>" and ?v = "mem_world\<lparr>w_inflight := mem_table True\<rparr>"
  have miss: "foyer_get (ex_hybrid mem_externals) mem_key (w_cache ?w) = (None, w_cache mem_world)"
    by (simp add: mem_foyer_get)
  have i: "inner (w_inflight ?w) mem_key = Some 0" "\<not> entry_woken 1 0 (w_inflight ?w)"
    "entry_woken 1 0 (w_inflight ?v)"
    "entry_result 0 (w_inflight ?v) = Some (Inl (not_found (lit ''object not found'')))"
    by (simp_all add: mem_table_def acquire_def inflight_new_def entry_woken_def entry_new_def
        notify_defs Let_def release_def set_result_def entry_notified_def heap_update_entry
        entry_result_def)
  have wf: "inflight_wf (w_inflight ?w)"
    by (simp add: mem_table_def Let_def inflight_wf_acquire inflight_wf_new)
  have "run mem_externals 1 (AwaitNotified 0 (ReadResult 0
        (get_object_waited mem_libs mem_app (lit ''b'') (lit ''a.txt'')))) ?v
      = run mem_externals 1 (finish (lit ''GET'') (Inl (not_found (lit ''object not found'')))) ?v"
    using conjunct2 [OF get_follows [OF mem_object_path(1) miss i(1) wf i(2) refl i(3),
        of mem_libs mem_app]] i(4) by simp
  then show ?thesis by (simp add: run_finish)
qed

section \<open>Counting requests\<close>

text \<open>
  What a program can emit and how it can end, over all answers the operations could give it, hence
  under every schedule.
\<close>

primrec paths :: "prog \<Rightarrow> (metric_event list \<times> outcome) set" where
  "paths (Done r) = {([], r)}"
| "paths (CacheGet key k) = (\<Union>r. paths (k r))"
| "paths (CachePut key bs ct k) = paths k"
| "paths (CacheStats k) = (\<Union>r. paths (k r))"
| "paths (Acquire key k) = (\<Union>r. paths (k r))"
| "paths (SetResult e r k) = paths k"
| "paths (Release key e k) = paths k"
| "paths (Released k) = paths k"
| "paths (Notified e k) = paths k"
| "paths (AwaitNotified e k) = paths k"
| "paths (ReadResult e k) = (\<Union>r. paths (k r))"
| "paths (StoreHead s l k) = (\<Union>r. paths (k r))"
| "paths (StoreGet s l k) = (\<Union>r. paths (k r))"
| "paths (ReadBytes h k) = (\<Union>r. paths (k r))"
| "paths (PutMultipart s l k) = (\<Union>r. paths (k r))"
| "paths (AwaitBody k) = paths k"
| "paths (WritePut h chunk k) = paths k"
| "paths (WriteFinish h k) = (\<Union>r. paths (k r))"
| "paths (WriteAbort h k) = paths k"
| "paths (Emit ev k) = (\<lambda>(evs, r). (ev # evs, r)) ` paths k"
| "paths (Gather k) = (\<Union>r. paths (k r))"
| "paths (Now k) = (\<Union>r. paths (k r))"
| "paths (UnixTime k) = (\<Union>r. paths (k r))"
| "paths (Spawn q k) = paths k"

abbreviation requests_total :: rstr where
  "requests_total \<equiv> lit ''cachegate_requests_total''"

definition counted_once :: "rstr \<Rightarrow> prog \<Rightarrow> bool" where
  "counted_once m p \<longleftrightarrow> (\<forall>(evs, out) \<in> paths p. \<exists>r pre. out = Respond r
     \<and> evs = pre @ [inc_requests m (status_label r)] \<and> counter_total requests_total pre = 0)"

lemma counted_onceI:
  "(\<And>evs out. (evs, out) \<in> paths p \<Longrightarrow> \<exists>r pre. out = Respond r
     \<and> evs = pre @ [inc_requests m (status_label r)] \<and> counter_total requests_total pre = 0) \<Longrightarrow>
     counted_once m p"
  unfolding counted_once_def by blast

lemma event_amount_requests [simp]:
  "event_amount requests_total (inc_requests m st) = 1"
  "event_amount requests_total (inc_cache_hit m) = 0"
  "event_amount requests_total (inc_cache_miss m) = 0"
  "event_amount requests_total (inc_auth_fail m) = 0"
  "event_amount requests_total (inc_upstream_ok m) = 0"
  "event_amount requests_total (inc_upstream_err m e) = 0"
  "event_amount requests_total (observe_upstream_latency_ms m v) = 0"
  by (simp_all add: metric_event_defs)

lemma counted_finish [disc_intros]: "counted_once m (finish m r)"
  by (simp add: counted_once_def finish_def)

lemma counted_ops [simp]:
  "counted_once m (CacheGet key kc) \<longleftrightarrow> (\<forall>r. counted_once m (kc r))"
  "counted_once m (CachePut key bs ct k) \<longleftrightarrow> counted_once m k"
  "counted_once m (Acquire key ka) \<longleftrightarrow> (\<forall>r. counted_once m (ka r))"
  "counted_once m (SetResult e rs k) \<longleftrightarrow> counted_once m k"
  "counted_once m (Release key e k) \<longleftrightarrow> counted_once m k"
  "counted_once m (Released k) \<longleftrightarrow> counted_once m k"
  "counted_once m (Notified e k) \<longleftrightarrow> counted_once m k"
  "counted_once m (AwaitNotified e k) \<longleftrightarrow> counted_once m k"
  "counted_once m (ReadResult e kr) \<longleftrightarrow> (\<forall>r. counted_once m (kr r))"
  "counted_once m (StoreGet s l kg) \<longleftrightarrow> (\<forall>r. counted_once m (kg r))"
  "counted_once m (ReadBytes h kb) \<longleftrightarrow> (\<forall>r. counted_once m (kb r))"
  "counted_once m (Now kn) \<longleftrightarrow> (\<forall>r. counted_once m (kn r))"
  by (auto simp: counted_once_def)

lemma counted_Emit:
  assumes "event_amount requests_total ev = 0" "counted_once m p"
  shows "counted_once m (Emit ev p)"
proof (rule counted_onceI)
  fix evs out
  assume "(evs, out) \<in> paths (Emit ev p)"
  then obtain evs' where "evs = ev # evs'" "(evs', out) \<in> paths p" by auto
  with assms show "\<exists>r pre. out = Respond r \<and> evs = pre @ [inc_requests m (status_label r)]
      \<and> counter_total requests_total pre = 0"
    unfolding counted_once_def by (fastforce intro: exI [of _ "ev # _"])
qed

lemma counted_upstream:
  "counted_once m k \<Longrightarrow> counted_once m (upstream_failed m' s e k)"
  "counted_once m k \<Longrightarrow> counted_once m (upstream_succeeded m' s k)"
  by (simp_all add: upstream_failed_def upstream_succeeded_def counted_Emit)

lemma counted_fetch:
  "(\<And>r. counted_once m (k r)) \<Longrightarrow> counted_once m (fetch_and_cache_entry l st key b p m' k)"
  by (auto simp: fetch_and_cache_entry_def Let_def intro!: counted_upstream split: option.split sum.split)

text \<open>
  C17: every \<open>GET\<close> that ends, on every branch and under every schedule, has counted itself exactly
  once in \<open>cachegate_requests_total\<close>, last of all and with the status it answers.
\<close>

theorem get_counted_once: "counted_once (lit ''GET'') (get_object l st b p)"
proof -
  have w: "counted_once (lit ''GET'') (get_object_waited l st b p r)" for r
    by (auto simp: get_object_waited_def Let_def respond_fetched_def
        intro!: counted_finish counted_fetch split: option.split sum.split)
  show ?thesis
    by (auto simp: get_object_def Let_def get_object_leader_def complete_def respond_fetched_def
        wait_def intro!: counted_finish counted_Emit counted_fetch w split: option.split permit.split)
qed

text \<open>
  C28: \<open>HEAD\<close> and \<open>PUT\<close> for a bucket that is not configured are answered 404 without being counted:
  the early return leaves the function and not the labelled block that the count follows.
\<close>

theorem unknown_bucket_uncounted:
  assumes "\<not> invalid_object_path p" and "as_stores st b = None"
  shows "paths (put_object l st b p hs body) = {([], Respond (Inl (not_found (lit ''unknown bucket''))))}
    \<and> ([inc_cache_miss (lit ''HEAD'')], Respond (Inl (not_found (lit ''unknown bucket''))))
        \<in> paths (head_object l st b p params)
    \<and> \<not> counted_once (lit ''HEAD'') (head_object l st b p params)
    \<and> \<not> counted_once (lit ''PUT'') (put_object l st b p hs body)"
proof -
  have put: "paths (put_object l st b p hs body) = {([], Respond (Inl (not_found (lit ''unknown bucket''))))}"
    using assms by (simp add: put_object_def)
  have head: "([inc_cache_miss (lit ''HEAD'')], Respond (Inl (not_found (lit ''unknown bucket''))))
      \<in> paths (head_object l st b p params)"
    using assms by (auto simp: head_object_def Let_def intro!: exI [of _ None])
  have "\<not> counted_once (lit ''HEAD'') (head_object l st b p params)"
    using head by (fastforce simp: counted_once_def metric_event_defs)
  moreover have "\<not> counted_once (lit ''PUT'') (put_object l st b p hs body)"
    by (simp add: counted_once_def put)
  ultimately show ?thesis using put head by blast
qed

theorem unknown_bucket_uncounted_witness:
  "\<not> counted_once (lit ''PUT'') (put_object mem_libs mem_app (lit ''nope'') (lit ''a.txt'') Map.empty [])"
  using unknown_bucket_uncounted [of "lit ''a.txt''" mem_app "lit ''nope''"] mem_object_path(1) by simp

end
