(* ===== verification/Head_Requests.thy ===== *)
theory Head_Requests
  imports Requests
begin

text \<open>
  \<open>HEAD\<close> requests and the prefetch they may spawn: the answer from the cache or from the upstream's
  metadata, what is counted and what is not, and the effect of the prefetch task.
\<close>

section \<open>The upstream \<open>HEAD\<close>\<close>

definition upstream_head ::
    "('h, 'u) externals \<Rightarrow> store_ref \<Rightarrow> location \<Rightarrow> 'u \<Rightarrow> (store_error + object_meta) \<times> u64 \<times> 'u" where
  "upstream_head x s loc u =
     (let (start, u1) = clock_instant x u;
          (r, u2) = up_head x s loc u1;
          (now, u3) = clock_instant x u2
      in (r, elapsed_ms start now, u3))"

text \<open>The content length of a response, read back as a number.\<close>

definition announced_length :: "http_libs \<Rightarrow> http_response \<Rightarrow> nat option" where
  "announced_length l r =
     (case rs_headers r CONTENT_LENGTH of None \<Rightarrow> None | Some v \<Rightarrow> map_option undec (hv_to_str l v))"

text \<open>Header values keep plain digits.\<close>

definition header_digits_ok :: "http_libs \<Rightarrow> bool" where
  "header_digits_ok l \<longleftrightarrow>
     (\<forall>n. \<exists>v. hv_from_str l (dec n) = Some v \<and> hv_to_str l v = Some (dec n))"

lemma announced_with_content_length:
  assumes "header_digits_ok l"
  shows "announced_length l (with_content_length l n r) = Some n"
proof -
  from assms obtain v where "hv_from_str l (dec n) = Some v" "hv_to_str l v = Some (dec n)"
    unfolding header_digits_ok_def by blast
  then show ?thesis by (simp add: announced_length_def with_content_length_def)
qed

text \<open>
  The content length a client reads back is the length of the body served by \<open>GET\<close>, and the same
  number for \<open>HEAD\<close>: of the cached body, or the size the upstream reported.
\<close>

lemma announced_lengths:
  assumes "header_digits_ok l"
  shows "announced_length l (build_response l en hit) = Some (length (ce_bytes en))"
    and "announced_length l (build_head_response l en) = Some (length (ce_bytes en))"
    and "announced_length l (build_head_response_with_meta l n ct) = Some (unat n)"
  by (simp_all add: build_response_def build_head_response_def build_head_response_with_meta_def Let_def
      announced_with_content_length [OF assms])

lemma dec_digit_bound: "\<forall>c \<in> set (dec n). c < 256"
  using dec_digits [of n] by fastforce

lemma mem_header_digits: "header_digits_ok mem_libs"
proof -
  have "map (\<lambda>c. unat (of_nat c :: u8)) (dec n) = dec n" for n
    by (rule map_idI) (use dec_digit_bound [of n] in \<open>simp add: unat_of_nat take_bit_eq_mod\<close>)
  then show ?thesis by (simp add: header_digits_ok_def comp_def)
qed

section \<open>Answers\<close>

text \<open>
  A \<open>HEAD\<close> that hits answers from the cached entry, with no body, no upstream call and no
  prefetch.
\<close>

lemma head_hit:
  assumes "\<not> invalid_object_path p"
    and "foyer_get (ex_hybrid x) (cache_key_new b p) (w_cache w) = (Some en, c)"
  shows "run x t (head_object l st b p params) w =
    (Done (Respond (Inr (build_head_response l en))), [],
     w\<lparr>w_cache := c, w_metrics := w_metrics w @
        [inc_cache_hit (lit ''HEAD''), inc_requests (lit ''HEAD'') (lit ''200'')]\<rparr>)
    \<and> rs_body (build_head_response l en) = EmptyBody"
  using assms by (simp add: head_object_def exec_simps Let_def)

lemma head_hit_on_mem:
  "fst (run mem_externals 0 (head_object mem_libs mem_app (lit ''b'') (lit ''a.txt'') Map.empty)
      (mem_world\<lparr>w_cache := \<lparr>fc_cache = [mem_key \<mapsto> cache_entry_new [9] None], fc_inserts = 1\<rparr>\<rparr>))
    = Done (Respond (Inr (build_head_response mem_libs (cache_entry_new [9] None))))"
proof -
  let ?c = "\<lparr>fc_cache = [mem_key \<mapsto> cache_entry_new [9] None], fc_inserts = 1\<rparr>"
  have h: "foyer_get (ex_hybrid mem_externals) mem_key (w_cache (mem_world\<lparr>w_cache := ?c\<rparr>))
      = (Some (cache_entry_new [9] None), ?c)"
    by (simp add: mem_foyer_get)
  show ?thesis
    using head_hit [where t = 0 and l = mem_libs and st = mem_app and params = Map.empty,
        OF mem_object_path(1) h] by simp
qed

text \<open>
  C26: a \<open>HEAD\<close> that misses asks the upstream once. It answers the reported size and caches nothing
  itself; it spawns the prefetch exactly if the request asked for it and the upstream knows the
  object. A failed upstream call is answered with the mapped error and is not counted as a request.
\<close>

theorem head_miss:
  assumes "\<not> invalid_object_path p"
    and "foyer_get (ex_hybrid x) (cache_key_new b p) (w_cache w) = (None, c)"
    and "as_stores st b = Some s" and "upstream_head x s (path_into l p) (w_up w) = (r, ms, u)"
    and "evs = w_metrics w @ inc_cache_miss (lit ''HEAD'') # fetch_events (lit ''HEAD'') ms r"
  shows "run x t (head_object l st b p params) w =
    (case r of
       Inl err \<Rightarrow> (Done (Respond (Inl (from_store err))), [],
         w\<lparr>w_up := u, w_cache := c, w_metrics := evs\<rparr>)
     | Inr meta \<Rightarrow>
         (Done (Respond (Inr (build_head_response_with_meta l (om_size meta) (mime_from_path l p)))),
          (if parse_prefetch params then [head_prefetch l st (cache_key_new b p) b p] else []),
          w\<lparr>w_up := u, w_cache := c,
             w_metrics := evs @ [inc_requests (lit ''HEAD'') (lit ''200'')]\<rparr>))"
  using assms
  by (auto simp: head_object_def exec_simps Let_def upstream_head_def upstream_failed_def
      upstream_succeeded_def fetch_events_def split: prod.splits sum.splits)

lemma mem_head_read:
  "\<exists>u. upstream_head mem_externals 0 (lit ''a.txt'') (mem_store_new mem_objects)
     = (Inr \<lparr>om_size = 3\<rparr>, 1, u)"
  by (simp add: upstream_head_def mem_store_defs mem_objects_def elapsed_ms_def)

definition mem_params :: "rstr \<Rightarrow> rstr option" where
  "mem_params = [lit ''prefetch'' \<mapsto> lit ''TRUE'']"

lemma mem_prefetch: "parse_prefetch mem_params"
  by (simp add: parse_prefetch_def mem_params_def parse_prefetch_value_def lit_eval)

theorem head_miss_witness:
  "\<exists>w. run mem_externals 0 (head_object mem_libs mem_app (lit ''b'') (lit ''a.txt'') mem_params) mem_world
     = (Done (Respond (Inr (build_head_response_with_meta mem_libs 3 None))),
        [head_prefetch mem_libs mem_app mem_key (lit ''b'') (lit ''a.txt'')], w)"
proof -
  obtain u where u: "upstream_head mem_externals 0 (path_into mem_libs (lit ''a.txt'')) (w_up mem_world)
      = (Inr \<lparr>om_size = 3\<rparr>, 1, u)" using mem_head_read by auto
  have s: "as_stores mem_app (lit ''b'') = Some 0" by simp
  from head_miss [OF mem_object_path(1) mem_world_miss s u refl] mem_prefetch
  show ?thesis by simp
qed

text \<open>
  The prefetch parameter is on exactly for \<open>1\<close> and for \<open>true\<close> in any ASCII case; every other
  value, and no value, is off.
\<close>

lemma parse_prefetch_iff:
  "parse_prefetch params \<longleftrightarrow>
     (\<exists>v. params (lit ''prefetch'') = Some v \<and> (v = lit ''1'' \<or> to_ascii_lowercase v = lit ''true''))"
proof -
  have t: "to_ascii_lowercase (lit ''true'') = lit ''true''" "to_ascii_lowercase (lit ''false'') = lit ''false''"
    "to_ascii_lowercase (lit ''0'') = lit ''0''"
    by (simp_all add: lit_eval)
  show ?thesis
    by (cases "params (lit ''prefetch'')")
       (auto simp: parse_prefetch_def parse_prefetch_value_def eq_ignore_ascii_case_def t)
qed

section \<open>The prefetch\<close>

text \<open>
  C27: an undisturbed prefetch leads one fetch, caches the body exactly if it is within the cap, and
  leaves the in-flight table and the guards as they were; it counts the upstream call under \<open>HEAD\<close>
  and no request. If the key is in flight already it does nothing at all.
\<close>

theorem prefetch_effect:
  assumes "as_stores st b = Some s" and "w_held w t = None"
    and "upstream_read x s (path_into l p) (w_up w) = (r, ms, u)"
  shows "case inner (w_inflight w) (cache_key_new b p) of
      Some e \<Rightarrow> run x t (head_prefetch l st (cache_key_new b p) b p) w = (Done Finished, [], w)
    | None \<Rightarrow> \<exists>i. run x t (head_prefetch l st (cache_key_new b p) b p) w = (Done Finished, [],
        w\<lparr>w_up := u, w_cache := fetch_cache x l st (cache_key_new b p) p r (w_cache w), w_inflight := i,
          w_metrics := w_metrics w @ fetch_events (lit ''HEAD'') ms r\<rparr>)
        \<and> inner i = inner (w_inflight w)"
proof (cases "inner (w_inflight w) (cache_key_new b p)")
  case None
  let ?key = "cache_key_new b p" and ?e = "next_eid (w_inflight w)"
  let ?i = "release ?key ?e (set_result ?e (fetched l p r) (snd (acquire ?key (w_inflight w))))"
  have "inner ?i = inner (w_inflight w)"
    using None by (simp add: inner_release acquire_def Let_def fun_upd_idem)
  moreover have "run x t (head_prefetch l st ?key b p) w = (Done Finished, [],
      w\<lparr>w_up := u, w_cache := fetch_cache x l st ?key p r (w_cache w), w_inflight := ?i,
        w_metrics := w_metrics w @ fetch_events (lit ''HEAD'') ms r\<rparr>)"
    using assms None
    by (simp add: head_prefetch_def exec_simps run_Acquire_Leader Let_def run_fetch_and_cache
        complete_def acquire_def fun_upd_idem)
  ultimately show ?thesis using None by auto
next
  case (Some e)
  then show ?thesis by (simp add: head_prefetch_def run_Acquire_Follower exec_simps)
qed

theorem prefetch_effect_witness:
  "\<exists>w ct. run mem_externals 0 (head_prefetch mem_libs mem_app mem_key (lit ''b'') (lit ''a.txt'')) mem_world
       = (Done Finished, [], w) \<and> fc_cache (w_cache w) mem_key = Some (cache_entry_new [1, 2, 3] ct)"
proof -
  obtain u where u: "upstream_read mem_externals 0 (path_into mem_libs (lit ''a.txt'')) (w_up mem_world)
      = (Inr [1, 2, 3], 1, u)" using mem_read by auto
  have s: "as_stores mem_app (lit ''b'') = Some 0" "w_held mem_world 0 = None"
    "inner (w_inflight mem_world) mem_key = None" by (simp_all add: inflight_new_def)
  from prefetch_effect [OF s(1,2) u] s(3) show ?thesis
    by (auto simp: fetch_cache_def cacheable_def mem_foyer_put)
qed

end
