(* ===== verification/Put_Requests.thy ===== *)
theory Put_Requests
  imports Requests
begin

text \<open>
  \<open>PUT\<close> requests: what reaches the object store, what is cached, and what a later \<open>GET\<close> sees.
\<close>

section \<open>The upload\<close>

text \<open>
  The upstream half of a \<open>PUT\<close> for a payload of these chunks: the outcome, the milliseconds
  recorded and the outside afterwards.
\<close>

definition upstream_put ::
    "('h, 'u) externals \<Rightarrow> store_ref \<Rightarrow> location \<Rightarrow> bytes list \<Rightarrow> 'u \<Rightarrow> (store_error + unit) \<times> u64 \<times> 'u" where
  "upstream_put x s loc chunks u =
     (let u0 = snd (up_head x s loc u);
          (start, u1) = clock_instant x u0;
          (init, u2) = up_put_multipart x s loc u1;
          (r, u3) = (case init of
              Inl err \<Rightarrow> (Inl err, u2)
            | Inr h \<Rightarrow> up_finish x h (fold (up_write x h) chunks u2));
          (now, u4) = clock_instant x u3
      in (r, elapsed_ms start now, u4))"

text \<open>The chunks that arrive before the body's stream fails.\<close>

fun chunks_before :: "body_item list \<Rightarrow> bytes list" where
  "chunks_before [] = []"
| "chunks_before (Inl err # stream) = []"
| "chunks_before (Inr chunk # stream) = chunk # chunks_before stream"

lemma run_put_chunks:
  "body_chunks stream = Some chunks \<Longrightarrow>
     run x t (put_chunks h cap failed k stream bc) w =
     run x t (k (fold (buffer_chunk cap) chunks bc)) (w\<lparr>w_up := fold (up_write x h) chunks (w_up w)\<rparr>)"
  by (induction h cap failed k stream bc arbitrary: chunks w rule: put_chunks.induct)
     (auto simp: exec_simps)

lemma run_put_chunks_failed:
  "body_chunks stream = None \<Longrightarrow>
     run x t (put_chunks h cap failed k stream bc) w =
     run x t failed (w\<lparr>w_up := up_abort x h (fold (up_write x h) (chunks_before stream) (w_up w))\<rparr>)"
  by (induction h cap failed k stream bc arbitrary: w rule: put_chunks.induct)
     (auto simp: exec_simps)

section \<open>The copy for the cache\<close>

lemma buffer_step:
  assumes "chunk \<noteq> []" "length buf \<le> cap"
  shows "buffer_chunk cap chunk (buf, False) =
    (if length (buf @ chunk) \<le> cap then (buf @ chunk, False)
     else (take cap (buf @ chunk), True))"
  using assms by (cases "length buf = cap") (auto simp: buffer_chunk_def Let_def)

lemma buffer_fold:
  assumes "\<forall>chunk \<in> set chunks. chunk \<noteq> []" "length buf \<le> cap"
  shows "fold (buffer_chunk cap) chunks (buf, False) =
    (take cap (buf @ concat chunks), cap < length (buf @ concat chunks))"
  using assms
proof (induction chunks arbitrary: buf)
  case (Cons chunk chunks)
  show ?case
  proof (cases "length (buf @ chunk) \<le> cap")
    case True
    with Cons.prems have "buffer_chunk cap chunk (buf, False) = (buf @ chunk, False)"
      by (simp add: buffer_step)
    with Cons.IH [of "buf @ chunk"] Cons.prems True show ?thesis by simp
  next
    case False
    then have "buffer_chunk cap chunk (buf, False) = (take cap (buf @ chunk), True)"
      using Cons.prems by (simp add: buffer_step)
    with False show ?thesis by (simp add: fold_buffer_capped)
  qed
qed simp

lemma buffer_prefix:
  assumes "\<forall>chunk \<in> set chunks. chunk \<noteq> []"
  shows "fold (buffer_chunk cap) chunks ([], cap = 0) =
    (take cap (concat chunks), cap = 0 \<or> cap < length (concat chunks))"
proof (cases "cap = 0")
  case True
  then show ?thesis by (simp add: fold_buffer_capped)
next
  case False
  with buffer_fold [OF assms, of "[]" cap] show ?thesis by simp
qed

text \<open>
  C24: after any payload whose chunks are not empty, the copy is the payload cut at the cap, and it
  is marked as cut exactly if caching is off or the payload is longer than the cap: the chunking
  does not matter.
\<close>

theorem buffer_is_prefix:
  assumes "\<forall>chunk \<in> set chunks. chunk \<noteq> []"
  shows "fold (buffer_chunk cap) chunks ([], cap = 0) =
    (take cap (concat chunks), cap = 0 \<or> cap < length (concat chunks))"
  using assms by (rule buffer_prefix)

theorem buffer_is_prefix_witness:
  "fold (buffer_chunk 4) [[1, 2], [3, 4, 5], [6]] ([], False) = ([1, 2, 3, 4], True)"
  using buffer_is_prefix [of "[[1, 2], [3, 4, 5], [6]]" 4] by simp

text \<open>
  C25: an empty chunk after a payload of exactly the cap's length marks the copy as cut, although
  the payload is within the cap, so the object is then not cached.
\<close>

theorem empty_chunk_defeats_caching:
  assumes "\<forall>chunk \<in> set chunks. chunk \<noteq> []" and "length (concat chunks) = cap"
  shows "snd (fold (buffer_chunk cap) (chunks @ [[]]) ([], cap = 0))
    \<and> length (concat (chunks @ [[]])) \<le> cap"
proof -
  from buffer_fold [OF assms(1), of "[]" cap] assms(2)
  have "cap \<noteq> 0 \<Longrightarrow> fold (buffer_chunk cap) chunks ([], cap = 0) = (concat chunks, False)" by simp
  then show ?thesis
    using assms(2) by (cases "cap = 0") (simp_all add: fold_buffer_capped buffer_chunk_def)
qed

theorem empty_chunk_defeats_caching_witness:
  "snd (fold (buffer_chunk 2) [[1, 2], []] ([], False))"
  using empty_chunk_defeats_caching [of "[[1, 2]]" 2] by simp

section \<open>The request\<close>

definition put_cache ::
    "('h, 'u) externals \<Rightarrow> http_libs \<Rightarrow> 'vk app_state \<Rightarrow> cache_key \<Rightarrow> rstr \<Rightarrow> header_map \<Rightarrow> bytes
      \<Rightarrow> 'h foyer_cache \<Rightarrow> 'h foyer_cache" where
  "put_cache x l st key p hs payload c =
     (if cacheable st payload
      then foyer_put (ex_hybrid x) key payload (content_type_from_headers l hs p) c else c)"

lemma put_uploads_run:
  assumes "\<not> invalid_object_path p" and "as_stores st b = Some s"
    and "body_chunks body = Some chunks" and "\<forall>chunk \<in> set chunks. chunk \<noteq> []"
    and "upstream_put x s (path_into l p) chunks (w_up w) = (r, ms, u)"
    and "answer = result_map (\<lambda>_. build_put_response) (map_sum from_store (\<lambda>v. v) r)"
  shows "run x t (put_object l st b p hs body) w = (Done (Respond answer), [],
    w\<lparr>w_up := u,
       w_cache := (case r of Inl err \<Rightarrow> w_cache w
         | Inr _ \<Rightarrow> put_cache x l st (cache_key_new b p) p hs (concat chunks) (w_cache w)),
       w_metrics := w_metrics w @ fetch_events (lit ''PUT'') ms r
         @ [inc_requests (lit ''PUT'') (status_label answer)]\<rparr>)"
proof -
  let ?cap = "unat (as_cache_max_object_bytes st)"
  have b: "fold (buffer_chunk ?cap) chunks ([], ?cap = 0) =
      (take ?cap (concat chunks), ?cap = 0 \<or> ?cap < length (concat chunks))"
    using assms(4) by (rule buffer_prefix)
  have c: "cacheable st (concat chunks) \<longleftrightarrow> \<not> (?cap = 0 \<or> ?cap < length (concat chunks))"
    by (simp add: cacheable_def unat_eq_zero not_less)
  show ?thesis
  proof (cases "cacheable st (concat chunks)")
    case True
    with c have cap: "?cap \<noteq> 0" "length (concat chunks) \<le> ?cap" by simp_all
    with b have "fold (buffer_chunk ?cap) chunks ([], False) = (concat chunks, False)" by simp
    with assms(1,2,3,5,6) True cap(1) show ?thesis
      by (auto simp: put_object_def exec_simps Let_def upstream_put_def upstream_failed_def
          upstream_succeeded_def run_put_chunks fetch_events_def put_cache_def
        split: prod.splits sum.splits)
  next
    case False
    with assms(1,2,3,5,6) show ?thesis
      by (auto simp: put_object_def exec_simps Let_def upstream_put_def upstream_failed_def
          upstream_succeeded_def run_put_chunks b fetch_events_def put_cache_def c
        split: prod.splits sum.splits)
  qed
qed

text \<open>
  C15: a \<open>PUT\<close> whose body arrives writes its chunks upstream, all of them in order, whatever the
  cache takes. If the upload succeeds the payload is cached exactly if it is within the cap, under
  the request's content type, and the answer is 200; if it fails nothing is cached and the answer
  is the mapped error.
\<close>

theorem put_uploads:
  assumes "\<not> invalid_object_path p" and "as_stores st b = Some s"
    and "body_chunks body = Some chunks" and "\<forall>chunk \<in> set chunks. chunk \<noteq> []"
    and "upstream_put x s (path_into l p) chunks (w_up w) = (r, ms, u)"
    and "answer = result_map (\<lambda>_. build_put_response) (map_sum from_store (\<lambda>v. v) r)"
  shows "run x t (put_object l st b p hs body) w = (Done (Respond answer), [],
    w\<lparr>w_up := u,
       w_cache := (case r of Inl err \<Rightarrow> w_cache w
         | Inr _ \<Rightarrow> put_cache x l st (cache_key_new b p) p hs (concat chunks) (w_cache w)),
       w_metrics := w_metrics w @ fetch_events (lit ''PUT'') ms r
         @ [inc_requests (lit ''PUT'') (status_label answer)]\<rparr>)"
  using assms by (rule put_uploads_run)

lemma mem_put:
  "\<exists>u. upstream_put mem_externals 0 (lit ''a.txt'') [[7], [8, 9]] (mem_store_new mem_objects) = (Inr (), 1, u)
     \<and> ms_objects u (0, lit ''a.txt'') = Some [7, 8, 9]"
  by (simp add: upstream_put_def mem_store_defs mem_objects_def elapsed_ms_def)

theorem put_uploads_witness:
  "\<exists>w. run mem_externals 0 (put_object mem_libs mem_app (lit ''b'') (lit ''a.txt'') Map.empty [Inr [7], Inr [8, 9]]) mem_world
       = (Done (Respond (Inr build_put_response)), [], w)
     \<and> fc_cache (w_cache w) mem_key = Some (cache_entry_new [7, 8, 9] None)
     \<and> ms_objects (w_up w) (0, lit ''a.txt'') = Some [7, 8, 9]"
proof -
  obtain u where u: "upstream_put mem_externals 0 (path_into mem_libs (lit ''a.txt'')) [[7], [8, 9]] (w_up mem_world)
      = (Inr (), 1, u)" "ms_objects u (0, lit ''a.txt'') = Some [7, 8, 9]" using mem_put by auto
  have s: "as_stores mem_app (lit ''b'') = Some 0" "body_chunks [Inr [7], Inr [8, 9]] = Some [[7], [8, 9]]"
    "\<forall>chunk \<in> set [[7 :: u8], [8, 9]]. chunk \<noteq> []" by simp_all
  from put_uploads [where x = mem_externals and t = 0 and hs = Map.empty, OF mem_object_path(1) s u(1) refl] u(2)
  show ?thesis
    by (simp add: put_cache_def cacheable_def mem_foyer_put content_type_from_headers_def)
qed

text \<open>
  C23: a \<open>PUT\<close> whose body fails writes the chunks that came before the failure, aborts the upload,
  answers 400 and is counted; nothing is cached and the upload is never finished.
\<close>

theorem put_body_error:
  assumes "\<not> invalid_object_path p" and "as_stores st b = Some s" and "body_chunks body = None"
    and "clock_instant x (snd (up_head x s (path_into l p) (w_up w))) = (start, u1)"
    and "up_put_multipart x s (path_into l p) u1 = (Inr h, u2)"
  shows "run x t (put_object l st b p hs body) w =
    (Done (Respond (Inl (bad_request (lit ''invalid request body'')))), [],
     w\<lparr>w_up := up_abort x h (fold (up_write x h) (chunks_before body) u2),
        w_metrics := w_metrics w @ [inc_requests (lit ''PUT'') (lit ''400'')]\<rparr>)"
  using assms by (simp add: put_object_def exec_simps Let_def run_put_chunks_failed)

theorem put_body_error_witness:
  "\<exists>w. run mem_externals 0 (put_object mem_libs mem_app (lit ''b'') (lit ''a.txt'') Map.empty [Inr [7], Inl []]) mem_world
       = (Done (Respond (Inl (bad_request (lit ''invalid request body'')))), [], w)
     \<and> fc_cache (w_cache w) = Map.empty \<and> ms_objects (w_up w) = mem_objects"
proof -
  have s: "as_stores mem_app (lit ''b'') = Some 0" "body_chunks [Inr [7], Inl []] = None" by simp_all
  have c: "clock_instant mem_externals (snd (up_head mem_externals 0 (path_into mem_libs (lit ''a.txt'')) (w_up mem_world)))
      = (0, (mem_store_new mem_objects)\<lparr>ms_time := 1\<rparr>)"
    by (simp add: mem_store_defs mem_objects_def)
  obtain u2 where u2: "up_put_multipart mem_externals 0 (path_into mem_libs (lit ''a.txt''))
      ((mem_store_new mem_objects)\<lparr>ms_time := 1\<rparr>) = (Inr 0, u2)"
    "ms_objects (up_abort mem_externals 0 (fold (up_write mem_externals 0) [[7]] u2)) = mem_objects"
    by (simp add: mem_store_defs)
  from put_body_error [OF mem_object_path(1) s c u2(1), of 0 Map.empty] u2(2) show ?thesis by simp
qed

section \<open>\<open>PUT\<close>, then \<open>GET\<close>\<close>

text \<open>A \<open>PUT\<close> that is answered with a response had a valid path, a known bucket and a finished upload.\<close>

lemma put_answered:
  assumes "run x t (put_object l st b p hs body) w = (Done (Respond (Inr resp)), qs, w1)"
    and "body_chunks body = Some chunks" and "\<forall>chunk \<in> set chunks. chunk \<noteq> []"
  shows "\<not> invalid_object_path p \<and> resp = build_put_response
    \<and> w_cache w1 = put_cache x l st (cache_key_new b p) p hs (concat chunks) (w_cache w)"
proof -
  have p: "\<not> invalid_object_path p"
    using assms(1) by (auto simp: put_object_def finish_def exec_simps Let_def)
  with assms(1) obtain s where s: "as_stores st b = Some s"
    by (auto simp: put_object_def exec_simps Let_def split: option.splits)
  obtain r ms u where up: "upstream_put x s (path_into l p) chunks (w_up w) = (r, ms, u)"
    by (cases "upstream_put x s (path_into l p) chunks (w_up w)")
  from put_uploads_run [OF p s assms(2,3) up refl, of t hs] assms(1)
  show ?thesis using p by (cases r) auto
qed

text \<open>
  C20: after a \<open>PUT\<close> that was answered with success and whose payload is within the cap, and whatever
  calls the cache has served since except another \<open>PUT\<close> of the key, a \<open>GET\<close> that hits answers exactly
  the payload, under the content type of the upload.
\<close>

theorem put_then_get:
  assumes "hybrid_lawful (ex_hybrid x) res"
    and "run x t (put_object l st b p hs body) w = (Done (Respond (Inr resp)), qs, w1)"
    and "body_chunks body = Some chunks" and "\<forall>chunk \<in> set chunks. chunk \<noteq> []"
    and "cacheable st (concat chunks)"
    and "w_cache w2 = fold (foyer.call_state (ex_hybrid x)) calls (w_cache w1)"
    and "\<forall>call \<in> set calls. \<forall>bs ct. call \<noteq> PutCall (cache_key_new b p) bs ct"
    and "fst (foyer_get (ex_hybrid x) (cache_key_new b p) (w_cache w2)) = Some en"
  shows "\<exists>v. run x t' (get_object l st b p) w2 =
    (Done (Respond (Inr (build_response l
       (cache_entry_new (concat chunks) (content_type_from_headers l hs p)) True))), [], v)"
proof -
  note put = put_answered [OF assms(2-4)]
  have "en = cache_entry_new (concat chunks) (content_type_from_headers l hs p)"
    by (rule foyer.get_after_put [OF assms(1) _ assms(7)])
       (use assms(5,6,8) put in \<open>simp add: put_cache_def\<close>)
  moreover obtain d where "foyer_get (ex_hybrid x) (cache_key_new b p) (w_cache w2) = (Some en, d)"
    using assms(8) by (cases "foyer_get (ex_hybrid x) (cache_key_new b p) (w_cache w2)") auto
  ultimately show ?thesis using run_get_hit put by blast
qed

theorem put_then_get_witness:
  "\<exists>w v. run mem_externals 0 (put_object mem_libs mem_app (lit ''b'') (lit ''a.txt'') Map.empty [Inr [7], Inr [8, 9]])
       mem_world = (Done (Respond (Inr build_put_response)), [], w)
     \<and> run mem_externals 1 (get_object mem_libs mem_app (lit ''b'') (lit ''a.txt'')) w
       = (Done (Respond (Inr (build_response mem_libs (cache_entry_new [7, 8, 9] None) True))), [], v)"
proof -
  obtain u where u: "upstream_put mem_externals 0 (path_into mem_libs (lit ''a.txt'')) [[7], [8, 9]] (w_up mem_world)
      = (Inr (), 1, u)" using mem_put by auto
  have s: "as_stores mem_app (lit ''b'') = Some 0" "body_chunks [Inr [7], Inr [8, 9]] = Some [[7], [8, 9]]"
    "\<forall>chunk \<in> set [[7 :: u8], [8, 9]]. chunk \<noteq> []" by simp_all
  have cc: "cacheable mem_app (concat [[7], [8, 9]])" by (simp add: cacheable_def)
  obtain w1 where r: "run mem_externals 0 (put_object mem_libs mem_app (lit ''b'') (lit ''a.txt'') Map.empty
      [Inr [7], Inr [8, 9]]) mem_world = (Done (Respond (Inr build_put_response)), [], w1)"
    using put_uploads_run [where x = mem_externals and t = 0 and hs = Map.empty, OF mem_object_path(1) s u refl]
    by simp
  have "w_cache w1 = put_cache mem_externals mem_libs mem_app mem_key (lit ''a.txt'') Map.empty [7, 8, 9]
      (w_cache mem_world)"
    using put_answered [OF r s(2,3)] by simp
  then have g: "fst (foyer_get (ex_hybrid mem_externals) mem_key (w_cache w1)) = Some (cache_entry_new [7, 8, 9] None)"
    using cc by (simp add: put_cache_def mem_foyer_get mem_foyer_put content_type_from_headers_def)
  have h: "hybrid_lawful (ex_hybrid mem_externals) mem_resident" by (simp add: mem_hybrid_lawful)
  have c: "w_cache w1 = fold (foyer.call_state (ex_hybrid mem_externals)) [] (w_cache w1)"
    "\<forall>call \<in> set []. \<forall>bs ct. call \<noteq> PutCall mem_key bs ct" by simp_all
  from put_then_get [OF h r s(2,3) cc c g, of 1] r show ?thesis
    by (auto simp: content_type_from_headers_def)
qed

text \<open>
  C22: a successful \<open>PUT\<close> beyond the cap leaves the key's old entry in the cache: if the cache still
  holds one, the next \<open>GET\<close> answers the old body although the upstream holds the new one.
\<close>

theorem oversized_put_leaves_stale:
  assumes "\<not> invalid_object_path p" and "as_stores st b = Some s"
    and "body_chunks body = Some chunks" and "\<forall>chunk \<in> set chunks. chunk \<noteq> []"
    and "upstream_put x s (path_into l p) chunks (w_up w) = (Inr (), ms, u)"
    and "\<not> cacheable st (concat chunks)"
    and "foyer_get (ex_hybrid x) (cache_key_new b p) (w_cache w) = (Some old, c)"
  shows "\<exists>w' v. run x t (put_object l st b p hs body) w = (Done (Respond (Inr build_put_response)), [], w')
    \<and> run x t' (get_object l st b p) w' = (Done (Respond (Inr (build_response l old True))), [], v)"
proof -
  let ?w' = "w\<lparr>w_up := u, w_metrics := w_metrics w @ fetch_events (lit ''PUT'') ms (Inr () :: store_error + unit)
    @ [inc_requests (lit ''PUT'') (lit ''200'')]\<rparr>"
  have "run x t (put_object l st b p hs body) w = (Done (Respond (Inr build_put_response)), [], ?w')"
    using put_uploads_run [where t = t and hs = hs, OF assms(1-5) refl] assms(6) by (simp add: put_cache_def)
  moreover have "foyer_get (ex_hybrid x) (cache_key_new b p) (w_cache ?w') = (Some old, c)"
    using assms(7) by simp
  ultimately show ?thesis using run_get_hit [OF assms(1)] by blast
qed

theorem oversized_put_leaves_stale_witness:
  "\<exists>w' v. run mem_externals 0 (put_object mem_libs mem_app (lit ''b'') (lit ''a.txt'') Map.empty
        [Inr [7, 7, 7], Inr [8, 9]]) (mem_world\<lparr>w_cache := foyer_put mem_hybrid mem_key [1] None (w_cache mem_world)\<rparr>)
      = (Done (Respond (Inr build_put_response)), [], w')
    \<and> run mem_externals 1 (get_object mem_libs mem_app (lit ''b'') (lit ''a.txt'')) w'
      = (Done (Respond (Inr (build_response mem_libs (cache_entry_new [1] None) True))), [], v)"
proof -
  let ?w = "mem_world\<lparr>w_cache := foyer_put mem_hybrid mem_key [1] None (w_cache mem_world)\<rparr>"
  obtain u where u: "upstream_put mem_externals 0 (path_into mem_libs (lit ''a.txt'')) [[7, 7, 7], [8, 9]] (w_up ?w)
      = (Inr (), 1, u)"
    by (simp add: upstream_put_def mem_store_defs mem_objects_def elapsed_ms_def)
  have s: "as_stores mem_app (lit ''b'') = Some 0"
    "body_chunks [Inr [7, 7, 7], Inr [8, 9]] = Some [[7, 7, 7], [8, 9]]"
    "\<forall>chunk \<in> set [[7 :: u8, 7, 7], [8, 9]]. chunk \<noteq> []" by simp_all
  have c: "\<not> cacheable mem_app (concat [[7, 7, 7], [8, 9]])" by (simp add: cacheable_def)
  have g: "foyer_get (ex_hybrid mem_externals) mem_key (w_cache ?w) = (Some (cache_entry_new [1] None), w_cache ?w)"
    by (simp add: mem_foyer_get mem_foyer_put)
  show ?thesis
    by (rule oversized_put_leaves_stale [OF mem_object_path(1) s u c g])
qed

end
