(* ===== verification/Progress.thy ===== *)
theory Progress
  imports Head_Requests Put_Requests
begin

text \<open>
  Which requests can block at all, and a run in which an upload and a concurrent read leave an
  outdated entry in the cache.
\<close>

section \<open>Termination\<close>

text \<open>A program that never waits for a notification.\<close>

primrec never_waits :: "prog \<Rightarrow> bool" where
  "never_waits (Done r) \<longleftrightarrow> True"
| "never_waits (CacheGet key k) \<longleftrightarrow> (\<forall>r. never_waits (k r))"
| "never_waits (CachePut key bs ct k) \<longleftrightarrow> never_waits k"
| "never_waits (CacheStats k) \<longleftrightarrow> (\<forall>r. never_waits (k r))"
| "never_waits (Acquire key k) \<longleftrightarrow> (\<forall>r. never_waits (k r))"
| "never_waits (SetResult e r k) \<longleftrightarrow> never_waits k"
| "never_waits (Release key e k) \<longleftrightarrow> never_waits k"
| "never_waits (Released k) \<longleftrightarrow> never_waits k"
| "never_waits (Notified e k) \<longleftrightarrow> never_waits k"
| "never_waits (AwaitNotified e k) \<longleftrightarrow> False"
| "never_waits (ReadResult e k) \<longleftrightarrow> (\<forall>r. never_waits (k r))"
| "never_waits (StoreHead s l k) \<longleftrightarrow> (\<forall>r. never_waits (k r))"
| "never_waits (StoreGet s l k) \<longleftrightarrow> (\<forall>r. never_waits (k r))"
| "never_waits (ReadBytes h k) \<longleftrightarrow> (\<forall>r. never_waits (k r))"
| "never_waits (PutMultipart s l k) \<longleftrightarrow> (\<forall>r. never_waits (k r))"
| "never_waits (AwaitBody k) \<longleftrightarrow> never_waits k"
| "never_waits (WritePut h chunk k) \<longleftrightarrow> never_waits k"
| "never_waits (WriteFinish h k) \<longleftrightarrow> (\<forall>r. never_waits (k r))"
| "never_waits (WriteAbort h k) \<longleftrightarrow> never_waits k"
| "never_waits (Emit ev k) \<longleftrightarrow> never_waits k"
| "never_waits (Gather k) \<longleftrightarrow> (\<forall>r. never_waits (k r))"
| "never_waits (Now k) \<longleftrightarrow> (\<forall>r. never_waits (k r))"
| "never_waits (UnixTime k) \<longleftrightarrow> (\<forall>r. never_waits (k r))"
| "never_waits (Spawn q k) \<longleftrightarrow> never_waits k"

lemma never_waits_step:
  "never_waits p \<Longrightarrow> exec_op x t p w = Some (p', q, w') \<Longrightarrow> never_waits p'"
  by (cases p) (auto simp: ask_def split: prod.splits permit.splits option.splits)

lemma never_waits_stuck: "never_waits p \<Longrightarrow> exec_op x t p w = None \<Longrightarrow> \<exists>r. p = Done r"
  by (cases p) (auto simp: ask_def split: prod.splits permit.splits option.splits)

lemma never_waits_ends: "never_waits p \<Longrightarrow> \<exists>r. fst (run x t p w) = Done r"
proof (induction p arbitrary: w rule: wfp_induct_rule [OF wf_sub_prog])
  case (1 p)
  show ?case
  proof (cases "exec_op x t p w")
    case None
    from never_waits_stuck [OF "1.prems" None] show ?thesis
      by (auto simp: run.simps None)
  next
    case (Some r)
    obtain p' q w' where r: "r = (p', q, w')" by (cases r)
    with Some have op: "exec_op x t p w = Some (p', q, w')" by simp
    from "1.IH" [OF exec_op_sub [OF op] never_waits_step [OF "1.prems" op]]
    have "\<exists>r. fst (run x t p' w') = Done r" .
    then show ?thesis by (subst run.simps) (auto simp: op split: prod.split)
  qed
qed

lemma never_waits_helpers [simp]:
  "never_waits (finish m r)"
  "never_waits (upstream_failed m s e k) \<longleftrightarrow> never_waits k"
  "never_waits (upstream_succeeded m s k) \<longleftrightarrow> never_waits k"
  by (simp_all add: finish_def upstream_failed_def upstream_succeeded_def)

lemma never_waits_fetch:
  "(\<And>r. never_waits (k r)) \<Longrightarrow> never_waits (fetch_and_cache_entry l st key b p m k)"
  by (simp add: fetch_and_cache_entry_def Let_def split: option.split sum.split)

lemma never_waits_head: "never_waits (head_object l st b p params)"
  by (simp add: head_object_def Let_def split: option.split sum.split)

lemma never_waits_put_chunks:
  "never_waits failed \<Longrightarrow> (\<And>bc. never_waits (k bc)) \<Longrightarrow> never_waits (put_chunks h cap failed k stream bc)"
  by (induction h cap failed k stream bc rule: put_chunks.induct) simp_all

lemma never_waits_put: "never_waits (put_object l st b p hs body)"
  by (auto simp: put_object_def Let_def intro!: never_waits_put_chunks split: option.split sum.split prod.split)

lemma never_waits_prefetch: "never_waits (head_prefetch l st key b p)"
  by (auto simp: head_prefetch_def complete_def intro!: never_waits_fetch split: permit.split)

lemma never_waits_leader: "never_waits (get_object_leader l st b p g)"
  by (auto simp: get_object_leader_def complete_def respond_fetched_def intro!: never_waits_fetch)

lemma get_ends_or_follows:
  "(\<exists>r. fst (run x t (get_object l st b p) w) = Done r)
      \<or> (\<exists>e. inner (w_inflight w) (cache_key_new b p) = Some e
          \<and> fst (run x t (get_object l st b p) w) = AwaitNotified e (ReadResult e (get_object_waited l st b p)))"
proof (cases "invalid_object_path p")
  case True
  then show ?thesis by (simp add: get_object_def exec_simps)
next
  case False
  obtain got c where g: "foyer_get (ex_hybrid x) (cache_key_new b p) (w_cache w) = (got, c)"
    by (cases "foyer_get (ex_hybrid x) (cache_key_new b p) (w_cache w)")
  let ?w = "w\<lparr>w_cache := c, w_metrics := w_metrics w @ [inc_cache_miss (lit ''GET'')]\<rparr>"
  show ?thesis
  proof (cases got)
    case None
    show ?thesis
    proof (cases "inner (w_inflight w) (cache_key_new b p)")
      case lead: None
      with False g None show ?thesis
        using never_waits_ends [OF never_waits_leader] by (simp add: get_object_def exec_simps
          Let_def run_Acquire_Leader)
    next
      case (Some e)
      have waited: "never_waits (get_object_waited l st b p r)" for r
        by (auto simp: get_object_waited_def Let_def respond_fetched_def
            intro!: never_waits_fetch split: option.split sum.split)
      have "\<exists>ra. fst (run x t (get_object_waited l st b p r) v) = Done ra" for r v
        by (rule never_waits_ends [OF waited])
      with False g None Some show ?thesis
        by (auto simp: get_object_def exec_simps Let_def run_Acquire_Follower wait_def)
    qed
  next
    case (Some en)
    with False g show ?thesis by (simp add: get_object_def exec_simps Let_def)
  qed
qed

text \<open>
  C18: \<open>HEAD\<close>, \<open>PUT\<close>, the prefetch and the leader of a \<open>GET\<close> run to their end whatever the cache, the
  upstream and the in-flight table answer: no loop and no wait can hold them. The one place where a
  request can wait for another is a \<open>GET\<close> that follows.
\<close>

theorem only_followers_wait:
  "(\<exists>r. fst (run x t (head_object l st b p params) w) = Done r)
   \<and> (\<exists>r. fst (run x t (put_object l st b p hs body) w) = Done r)
   \<and> (\<exists>r. fst (run x t (head_prefetch l st key b p) w) = Done r)
   \<and> (\<exists>r. fst (run x t (get_object_leader l st b p g) w) = Done r)
   \<and> ((\<exists>r. fst (run x t (get_object l st b p) w) = Done r)
      \<or> (\<exists>e. inner (w_inflight w) (cache_key_new b p) = Some e
          \<and> fst (run x t (get_object l st b p) w) = AwaitNotified e (ReadResult e (get_object_waited l st b p))))"
  by (intro conjI get_ends_or_follows never_waits_ends never_waits_head never_waits_put
      never_waits_prefetch never_waits_leader)

section \<open>An upload that a concurrent read undoes\<close>

text \<open>The requests of the run: a read and an upload of the same object.\<close>

definition mem_put_request :: request where
  "mem_put_request = mem_request (lit ''tok'') (lit ''PUT'') (lit ''a.txt'') [Inr [7]]"

lemma mem_serve_put:
  "mem_serve mem_put_request = Some (UnixTime (\<lambda>now.
     put_object mem_libs mem_app (lit ''b'') (lit ''a.txt'') (mem_headers (lit ''tok'')) [Inr [7]]))"
proof -
  have "authenticate mem_auth (as_auth mem_app) now m b p (Some (lit ''tok'')) sig = Inr Bearer" for now m b p sig
    by (simp add: authenticate_Bearer)
  then show ?thesis
    by (simp add: mem_serve_def run_server_def mem_put_request_def Let_def protected_methods_def
        auth_middleware_def object_handler_def mem_bearer_tok)
qed

text \<open>The read's task up to the moment before it caches what it has fetched.\<close>

lemma mem_get_fetched:
  "\<exists>w ct r k. advance (Suc (Suc (Suc (Suc (Suc (Suc (Suc (Suc (Suc (Suc 0)))))))))) mem_externals 0
      (UnixTime (\<lambda>now. get_object mem_libs mem_app (lit ''b'') (lit ''a.txt'')))
      (world_init Map.empty (mem_store_new mem_objects))
    = Some (CachePut mem_key [1, 2, 3] ct (complete \<lparr>ig_key = mem_key, ig_entry = 0, ig_released = False\<rparr>
        (Inr r) (respond_fetched mem_libs (Inr r))), w)
    \<and> ms_uploads (w_up w) = []"
  by (simp add: get_object_def Let_def mem_object_path mem_foyer_get ask_def mem_unix_def
      mem_store_new_def world_init_def acquire_def inflight_new_def get_object_leader_def
      fetch_and_cache_entry_def mem_instant_def mem_get_def mem_objects_def mem_bytes_def
      upstream_succeeded_def) blast

lemma mem_put_run:
  assumes "ms_uploads (w_up w) = []"
  shows "\<exists>w'. run mem_externals t (UnixTime (\<lambda>now.
       put_object mem_libs mem_app (lit ''b'') (lit ''a.txt'') (mem_headers (lit ''tok'')) [Inr [7]])) w
     = (Done (Respond (Inr build_put_response)), [], w')
     \<and> ms_objects (w_up w') (0, lit ''a.txt'') = Some [7]"
  using assms
  by (cases "ms_objects (w_up w) (0, lit ''a.txt'')")
     (simp_all add: put_object_def exec_simps Let_def mem_object_path upstream_succeeded_def
        mem_unix_def mem_instant_def mem_head_def mem_put_multipart_def mem_write_def mem_finish_def
        buffer_chunk_def)

lemma mem_caches_late:
  "\<exists>w'. run mem_externals t (CachePut key bs ct (complete g (Inr r) (respond_fetched mem_libs (Inr r)))) w
     = (Done (Respond (Inr (build_response mem_libs r False))), [], w')
     \<and> w_up w' = w_up w \<and> fc_cache (w_cache w') key = Some (cache_entry_new bs ct)"
  by (simp add: exec_simps complete_def respond_fetched_def mem_foyer_put)

lemma mem_both_arrive:
  "\<exists>s. reachable mem_externals mem_resident mem_serve Map.empty (mem_store_new mem_objects) s
     \<and> s_world s = world_init Map.empty (mem_store_new mem_objects) \<and> s_next s = 2
     \<and> s_tasks s = [0 \<mapsto> UnixTime (\<lambda>now. get_object mem_libs mem_app (lit ''b'') (lit ''a.txt'')),
         1 \<mapsto> UnixTime (\<lambda>now.
           put_object mem_libs mem_app (lit ''b'') (lit ''a.txt'') (mem_headers (lit ''tok'')) [Inr [7]])]
     \<and> s_request s = [0 \<mapsto> mem_get_request, 1 \<mapsto> mem_put_request]"
proof -
  let ?get = "UnixTime (\<lambda>now. get_object mem_libs mem_app (lit ''b'') (lit ''a.txt''))"
  let ?put = "UnixTime (\<lambda>now.
    put_object mem_libs mem_app (lit ''b'') (lit ''a.txt'') (mem_headers (lit ''tok'')) [Inr [7]])"
  obtain s1 where s1: "sstep mem_externals mem_resident mem_serve
      (sys_init Map.empty (mem_store_new mem_objects)) s1"
    "s_world s1 = world_init Map.empty (mem_store_new mem_objects)" "s_tasks s1 = [0 \<mapsto> ?get]"
    "s_request s1 = [0 \<mapsto> mem_get_request]" "s_next s1 = 1"
    using arrive_ssteps [of mem_serve mem_get_request ?get mem_externals mem_resident
        "sys_init Map.empty (mem_store_new mem_objects)", OF mem_serve_get] by auto
  obtain s2 where s2: "sstep mem_externals mem_resident mem_serve s1 s2" "s_world s2 = s_world s1"
    "s_tasks s2 = [0 \<mapsto> ?get, 1 \<mapsto> ?put]"
    "s_request s2 = [0 \<mapsto> mem_get_request, 1 \<mapsto> mem_put_request]" "s_next s2 = 2"
    using arrive_ssteps [of mem_serve mem_put_request ?put mem_externals mem_resident s1,
        OF mem_serve_put] s1 by auto
  have "reachable mem_externals mem_resident mem_serve Map.empty (mem_store_new mem_objects) s2"
    by (rule reachable.step [OF reachable.step [OF reachable.start s1(1)] s2(1)])
  with s1 s2 show ?thesis by (intro exI [of _ s2]) simp
qed

text \<open>
  C21: a \<open>GET\<close> that has fetched an object and a \<open>PUT\<close> of the object can overlap so that both succeed,
  the upstream holds the new body, and the cache is left with the old one: the leader caches what
  it read although a newer body has been cached in between.
\<close>

theorem overlapping_put_leaves_stale:
  "\<exists>s r ct. reachable mem_externals mem_resident mem_serve Map.empty (mem_store_new mem_objects) s
     \<and> s_request s = [0 \<mapsto> mem_get_request, 1 \<mapsto> mem_put_request]
     \<and> s_tasks s 0 = Some (Done (Respond (Inr r)))
     \<and> s_tasks s 1 = Some (Done (Respond (Inr build_put_response)))
     \<and> ms_objects (w_up (s_world s)) (0, lit ''a.txt'') = Some [7]
     \<and> fc_cache (w_cache (s_world s)) mem_key = Some (cache_entry_new [1, 2, 3] ct)"
proof -
  let ?R = "reachable mem_externals mem_resident mem_serve Map.empty (mem_store_new mem_objects)"
  let ?steps = "ssteps mem_externals mem_resident mem_serve"
  let ?get = "UnixTime (\<lambda>now. get_object mem_libs mem_app (lit ''b'') (lit ''a.txt''))"
  let ?put = "UnixTime (\<lambda>now.
    put_object mem_libs mem_app (lit ''b'') (lit ''a.txt'') (mem_headers (lit ''tok'')) [Inr [7]])"
  obtain s2 where r2: "?R s2" and s2: "s_world s2 = world_init Map.empty (mem_store_new mem_objects)"
    "s_next s2 = 2" "s_tasks s2 = [0 \<mapsto> ?get, 1 \<mapsto> ?put]"
    "s_request s2 = [0 \<mapsto> mem_get_request, 1 \<mapsto> mem_put_request]"
    using mem_both_arrive by blast
  obtain w3 ct r where adv: "advance (Suc (Suc (Suc (Suc (Suc (Suc (Suc (Suc (Suc (Suc 0)))))))))) mem_externals 0 ?get
      (s_world s2) = Some (CachePut mem_key [1, 2, 3] ct (complete
        \<lparr>ig_key = mem_key, ig_entry = 0, ig_released = False\<rparr> (Inr r) (respond_fetched mem_libs (Inr r))), w3)"
    and up: "ms_uploads (w_up w3) = []"
    using mem_get_fetched s2(1) by auto
  let ?late = "CachePut mem_key [1, 2, 3] ct (complete
    \<lparr>ig_key = mem_key, ig_entry = 0, ig_released = False\<rparr> (Inr r) (respond_fetched mem_libs (Inr r)))"
  define s3 where "s3 = put_task 0 (Some ?late) (s2\<lparr>s_world := w3\<rparr>)"
  have s3: "?steps s2 s3" unfolding s3_def by (rule advance_ssteps [OF adv]) (simp add: s2)
  obtain w4 where w4: "run mem_externals 1 ?put w3 = (Done (Respond (Inr build_put_response)), [], w4)"
    "ms_objects (w_up w4) (0, lit ''a.txt'') = Some [7]" using mem_put_run [OF up] by blast
  have t3: "s_tasks s3 1 = Some ?put" "1 < s_next s3" "s_world s3 = w3"
    "s_request s3 = [0 \<mapsto> mem_get_request, 1 \<mapsto> mem_put_request]" "s_tasks s3 0 = Some ?late"
    by (simp_all add: s3_def s2)
  obtain s4 where s4: "?steps s3 s4" "after_run mem_externals 1 s3 ?put s4"
    using run_ssteps [OF t3(1,2)] by blast
  then have t4: "s_world s4 = w4" "s_tasks s4 0 = Some ?late" "0 < s_next s4" "1 < s_next s4"
    "s_tasks s4 1 = Some (Done (Respond (Inr build_put_response)))" "s_request s4 = s_request s3"
    using t3 by (simp_all add: after_run_def w4 del: One_nat_def)
  obtain w5 where w5: "run mem_externals 0 ?late w4 = (Done (Respond (Inr (build_response mem_libs r False))), [], w5)"
    "w_up w5 = w_up w4" "fc_cache (w_cache w5) mem_key = Some (cache_entry_new [1, 2, 3] ct)"
    using mem_caches_late by blast
  obtain s5 where s5: "?steps s4 s5" "after_run mem_externals 0 s4 ?late s5"
    using run_ssteps [OF t4(2,3)] by blast
  have "?R s5" using r2 s3 s4(1) s5(1) by (meson reachable_steps)
  moreover from s5(2) have "s_world s5 = w5" "s_tasks s5 0 = Some (Done (Respond (Inr (build_response mem_libs r False))))"
    "s_tasks s5 1 = s_tasks s4 1" "s_request s5 = s_request s4"
    using t4(1,4) by (simp_all add: after_run_def w5 del: One_nat_def)
  ultimately show ?thesis
    using t4 t3(4) w4(2) w5(2,3) by (intro exI [of _ s5]) auto
qed

end
