(* ===== verification/Credentials.thy ===== *)
theory Credentials
  imports In_Memory
begin

text \<open>
  Properties of the credentials: what a presigned link opens, when a bearer token is accepted, how
  the two combine, and which key pairs the configuration may hold.
\<close>

section \<open>Presigned links\<close>

text \<open>
  C5: a presigned link that is accepted once carries one signed payload, and it opens exactly what
  that payload grants: its bucket, its path, its method up to case, until its expiry, and nothing
  else for any other request or at any other time.
\<close>

theorem presign_scope:
  assumes "verify a st now m b p sig = Inr ()"
  shows "\<exists>msg payload sg. link_parts a sig msg payload sg \<and> verify_strict a (verifying_key st) msg sg
    \<and> payload_grants a payload now m b p
    \<and> (\<forall>now' m' b' p'. verify a st now' m' b' p' sig = Inr () \<longleftrightarrow> payload_grants a payload now' m' b' p')"
proof -
  from assms obtain msg payload sg where link: "link_parts a sig msg payload sg"
    "payload_grants a payload now m b p" "verify_strict a (verifying_key st) msg sg"
    by (auto simp: verify_iff)
  have "verify a st now' m' b' p' sig = Inr () \<longleftrightarrow> payload_grants a payload now' m' b' p'" for now' m' b' p'
    unfolding verify_iff using link(1,3) link_parts_unique [OF link(1)] by blast
  with link show ?thesis by blast
qed

theorem presign_scope_witness:
  "\<exists>payload. payload_grants mem_auth payload 50 (lit ''GET'') (lit ''b'') (lit ''a.txt'')
     \<and> verify mem_auth (as_auth mem_app) 101 (lit ''GET'') (lit ''b'') (lit ''a.txt'') mem_link \<noteq> Inr ()"
proof -
  obtain msg payload sg where p: "link_parts mem_auth mem_link msg payload sg"
    "payload_grants mem_auth payload 50 (lit ''GET'') (lit ''b'') (lit ''a.txt'')"
    "\<And>now' m' b' p'. verify mem_auth (as_auth mem_app) now' m' b' p' mem_link = Inr ()
       \<longleftrightarrow> payload_grants mem_auth payload now' m' b' p'"
    using presign_scope [OF mem_verify] by blast
  have "payload = mem_payload"
    using p(1) by (auto simp: link_parts_alt split: if_splits)
  then have "\<not> payload_grants mem_auth payload 101 (lit ''GET'') (lit ''b'') (lit ''a.txt'')"
    by (simp add: payload_grants_def mem_payload_def)
  with p(2,3) show ?thesis by blast
qed

section \<open>Bearer tokens\<close>

lemma split_word:
  assumes "w \<noteq> []" "\<forall>c \<in> set w. \<not> is_whitespace c" "is_whitespace d"
  shows "split_whitespace (w @ d # s) = w # split_whitespace s"
    and "split_whitespace w = [w]"
  using assms by (simp_all add: split_whitespace_def split_by_append_sep split_by_none)

text \<open>
  C30: a header that is a scheme, one space and a token is read back as that token, for every
  spelling of \<open>bearer\<close> and every token without white space.
\<close>

theorem bearer_header_read_back:
  assumes "headers AUTHORIZATION = Some v" and "hv_to_str l v = Some (scheme @ 32 # token)"
    and "to_ascii_lowercase scheme = lit ''bearer''"
    and "token \<noteq> []" and "\<forall>c \<in> set token. \<not> is_whitespace c"
  shows "parse_bearer_token l headers = Some token"
proof -
  have "\<not> is_whitespace c" if "c \<in> set scheme" for c
  proof -
    have "ascii_lower c \<in> set (to_ascii_lowercase scheme)"
      using that by (simp add: to_ascii_lowercase_def)
    then have "97 \<le> ascii_lower c \<and> ascii_lower c \<le> 122"
      unfolding assms(3) by (auto simp: lit_def)
    then show ?thesis by (auto simp: ascii_lower_def is_whitespace_def split: if_splits)
  qed
  moreover have "scheme \<noteq> []" using assms(3) by (auto simp: to_ascii_lowercase_def)
  moreover have "is_whitespace 32" by (simp add: is_whitespace_def)
  ultimately have "split_whitespace (scheme @ 32 # token) = [scheme, token]"
    using assms(4,5) by (simp add: split_word)
  moreover have "to_ascii_lowercase (lit ''bearer'') = lit ''bearer''" by (simp add: lit_eval)
  ultimately show ?thesis
    using assms by (simp add: parse_bearer_token_def eq_ignore_ascii_case_def)
qed

theorem bearer_header_read_back_witness:
  "parse_bearer_token mem_libs (mem_headers (lit ''tok'')) = Some (lit ''tok'')"
  by (rule bearer_header_read_back [where v = "map of_nat (lit ''Bearer tok'')" and scheme = "lit ''Bearer''"])
     (simp_all add: mem_headers_def lit_eval)

text \<open>
  C31: a configured bearer token that is empty or contains white space is accepted by the
  configuration and can never be used: no request is authenticated by it.
\<close>

theorem blank_bearer_unusable:
  assumes "bearer_token st = Some token" and "token = [] \<or> (\<exists>c \<in> set token. is_whitespace c)"
  shows "authenticate a st now m b p (parse_bearer_token l headers) sig \<noteq> Inr Bearer"
  using assms parse_bearer_token_word [of l headers] by (auto simp: authenticate_Bearer)

theorem blank_bearer_unusable_witness:
  "authenticate mem_auth \<lparr>verifying_key = 7, bearer_token = Some (lit ''a b'')\<rparr> 0 (lit ''GET'') (lit ''b'')
     (lit ''a.txt'') (parse_bearer_token mem_libs (mem_headers (lit ''a b''))) None \<noteq> Inr Bearer"
proof -
  have "is_whitespace 32" "(32 :: uchar) \<in> set (lit ''a b'')"
    by (simp_all add: is_whitespace_def lit_def)
  then show ?thesis by (intro blank_bearer_unusable [where token = "lit ''a b''"]) auto
qed

section \<open>The decision\<close>

text \<open>
  C29: the middleware's decision. A request enters as \<open>Bearer\<close> exactly if its token is the configured
  one, as \<open>Presign\<close> exactly if it does not and its link verifies for this very method, bucket and
  path; a wrong bearer token does not stop a valid link. Without either credential the reason is
  \<open>MissingAuth\<close>, and that is the reason in no other case.
\<close>

theorem authenticate_decision:
  "(authenticate a st now m b p bearer sig = Inr Bearer \<longleftrightarrow> bearer \<noteq> None \<and> bearer = bearer_token st)
   \<and> (authenticate a st now m b p bearer sig = Inr Presign \<longleftrightarrow>
        \<not> (bearer \<noteq> None \<and> bearer = bearer_token st)
        \<and> (\<exists>s. sig = Some s \<and> verify a st now m b p s = Inr ()))
   \<and> (authenticate a st now m b p bearer sig = Inl MissingAuth \<longleftrightarrow> bearer = None \<and> sig = None)"
proof -
  have "verify a st now m b p s \<noteq> Inl MissingAuth" for s
    by (auto simp: verify_def and_then_eq_Inl split: if_splits prod.splits)
  then have "authenticate a st now m b p bearer sig = Inl MissingAuth \<longleftrightarrow> bearer = None \<and> sig = None"
    by (cases bearer; cases sig)
       (auto simp: authenticate_def try_bearer_cases Let_def split: option.splits sum.splits if_splits)
  then show ?thesis by (simp add: authenticate_Bearer authenticate_Presign)
qed

section \<open>Key pairs\<close>

text \<open>
  The configuration's keys are accepted exactly if both decode to 32 bytes, the public one is a
  valid key and the private one derives that very key; the state then verifies with it and holds the
  configured bearer token.
\<close>

lemma from_config_iff:
  "from_config a cfg = Inr st \<longleftrightarrow>
     (\<exists>pub priv. b64url_decode a (public_key cfg) = Some pub \<and> length pub = 32
        \<and> b64url_decode a (private_key cfg) = Some priv \<and> length priv = 32
        \<and> verifying_key_from_bytes a pub = Some (signing_key_public a priv)
        \<and> st = \<lparr>verifying_key = signing_key_public a priv, bearer_token = cfg_bearer_token cfg\<rparr>)"
  by (auto simp: from_config_def decode_key_def Let_def split: if_splits)

end
