(* ===== verification/Storage.thy ===== *)
theory Storage
  imports In_Memory
begin

text \<open>
  Properties of the configured backends: Azure connection strings, the store map and the cache.
\<close>

section \<open>Connection strings\<close>

abbreviation ACCOUNT_NAME :: rstr where "ACCOUNT_NAME \<equiv> lit ''AccountName''"
abbreviation ACCOUNT_KEY :: rstr where "ACCOUNT_KEY \<equiv> lit ''AccountKey''"
abbreviation PROTOCOL :: rstr where "PROTOCOL \<equiv> lit ''DefaultEndpointsProtocol''"
abbreviation SUFFIX :: rstr where "SUFFIX \<equiv> lit ''EndpointSuffix''"

lemma keys_lower [simp]:
  "to_ascii_lowercase ACCOUNT_NAME = lit ''accountname''"
  "to_ascii_lowercase ACCOUNT_KEY = lit ''accountkey''"
  "to_ascii_lowercase PROTOCOL = lit ''defaultendpointsprotocol''"
  "to_ascii_lowercase SUFFIX = lit ''endpointsuffix''"
  by (simp_all add: lit_eval)

lemma keys_plain [simp]:
  "plain_key ACCOUNT_NAME" "plain_key ACCOUNT_KEY" "plain_key PROTOCOL" "plain_key SUFFIX"
  by (simp_all add: plain_key_def tight_def lit_eval)

text \<open>The endpoint the parser makes of a protocol, an account and a suffix.\<close>

definition azure_endpoint :: "rstr \<Rightarrow> rstr \<Rightarrow> rstr \<Rightarrow> rstr" where
  "azure_endpoint protocol account suffix =
     to_ascii_lowercase protocol @ lit ''://'' @ account @ lit ''.blob.'' @ suffix"

lemma starts_with_http_endpoint:
  "to_ascii_lowercase protocol = lit ''http'' \<Longrightarrow>
     starts_with (lit ''http://'') (to_ascii_lowercase (azure_endpoint protocol account suffix))"
  by (simp add: azure_endpoint_def) (simp add: lit_eval)

text \<open>
  C32: a connection string printed from its four usual settings is read back exactly, whatever plain
  values they have (a key may hold \<open>=\<close>): account, key, the endpoint built from protocol, account and
  suffix; and plain HTTP is allowed exactly if that endpoint is an \<open>http\<close> one.
\<close>

theorem azure_round_trip:
  assumes "account \<noteq> []" and "access_key \<noteq> []"
    and "plain_value account" and "plain_value access_key" and "plain_value protocol" and "plain_value suffix"
  shows "parse_connection_string (print_segments
      [(PROTOCOL, protocol), (ACCOUNT_NAME, account), (ACCOUNT_KEY, access_key), (SUFFIX, suffix)])
    = Inr \<lparr>az_account = account, az_access_key = access_key,
        az_endpoint = Some (azure_endpoint protocol account suffix),
        az_allow_http = starts_with (lit ''http://'')
          (to_ascii_lowercase (azure_endpoint protocol account suffix))\<rparr>"
proof -
  let ?kvs = "[(PROTOCOL, protocol), (ACCOUNT_NAME, account), (ACCOUNT_KEY, access_key), (SUFFIX, suffix)]"
  have "parse_values (print_segments ?kvs) = fold store_pair ?kvs Map.empty"
    by (rule parse_values_print) (use assms in \<open>simp add: plain_pair_def\<close>)
  then show ?thesis
    using assms(1,2) starts_with_http_endpoint [of protocol account suffix]
    by (auto simp: parse_connection_string_def store_pair_def filter_nonempty_def azure_endpoint_def Let_def)
qed

theorem azure_round_trip_witness:
  "parse_connection_string (print_segments
      [(PROTOCOL, lit ''https''), (ACCOUNT_NAME, lit ''acc''), (ACCOUNT_KEY, lit ''a2V5=''), (SUFFIX, lit ''core.net'')])
    = Inr \<lparr>az_account = lit ''acc'', az_access_key = lit ''a2V5='',
        az_endpoint = Some (lit ''https://acc.blob.core.net''), az_allow_http = False\<rparr>"
proof -
  have "plain_value (lit ''https'')" "plain_value (lit ''acc'')" "plain_value (lit ''a2V5='')"
    "plain_value (lit ''core.net'')"
    by (simp_all add: plain_value_def tight_def lit_eval)
  from azure_round_trip [OF _ _ this(2,3,1,4)]
  show ?thesis by (simp add: azure_endpoint_def) (simp add: lit_eval)
qed

text \<open>
  A string is accepted exactly if it sets a non-empty account name and a non-empty account key
  (in any case of the keys and any order). The only errors are the two that name the missing one.
\<close>

lemma azure_accepts:
  "(case parse_connection_string s of
      Inr info \<Rightarrow> parse_values s (lit ''accountname'') = Some (az_account info) \<and> az_account info \<noteq> []
        \<and> parse_values s (lit ''accountkey'') = Some (az_access_key info) \<and> az_access_key info \<noteq> []
    | Inl e \<Rightarrow>
        (e = [lit ''missing AccountName''] \<and> filter_nonempty (parse_values s (lit ''accountname'')) = None)
        \<or> (e = [lit ''missing AccountKey''] \<and> filter_nonempty (parse_values s (lit ''accountkey'')) = None))"
  by (cases "filter_nonempty (parse_values s (lit ''accountname''))";
      cases "filter_nonempty (parse_values s (lit ''accountkey''))")
     (simp_all add: parse_connection_string_def Let_def del: filter_nonempty_Some, simp_all)

text \<open>
  C33: an empty \<open>EndpointSuffix\<close>, unlike an empty \<open>BlobEndpoint\<close>, is not treated as absent. Take any
  connection string that is accepted and sets no blob endpoint. Appending an empty \<open>BlobEndpoint\<close>
  changes nothing. Appending an empty \<open>EndpointSuffix\<close> replaces whatever endpoint it had by one whose
  host name is the account followed by \<open>.blob.\<close>, ending in a dot.
\<close>

theorem empty_suffix_kept:
  assumes "parse_connection_string s = Inr info"
    and "filter_nonempty (parse_values s (lit ''blobendpoint'')) = None"
  shows "parse_connection_string (s @ lit '';BlobEndpoint='') = Inr info
   \<and> (\<exists>info'. parse_connection_string (s @ lit '';EndpointSuffix='') = Inr info'
        \<and> az_account info' = az_account info \<and> az_access_key info' = az_access_key info
        \<and> az_endpoint info' = Some (azure_endpoint
            (case parse_values s (lit ''defaultendpointsprotocol'') of None \<Rightarrow> lit ''https'' | Some p \<Rightarrow> p)
            (az_account info) []))"
proof -
  have p: "plain_pair (lit ''BlobEndpoint'', [])" "plain_pair (SUFFIX, [])"
    by (simp_all add: plain_pair_def plain_value_def plain_key_def tight_def lit_eval)
  have l: "lit '';BlobEndpoint='' = 59 # lit ''BlobEndpoint'' @ 61 # []"
    "lit '';EndpointSuffix='' = 59 # SUFFIX @ 61 # []" by (simp_all add: lit_def)
  have lower: "to_ascii_lowercase (lit ''BlobEndpoint'') = lit ''blobendpoint''"
    "to_ascii_lowercase (lit ''https'') = lit ''https''" by (simp_all add: lit_eval)
  note v = parse_values_append [OF p(1), of s] parse_values_append [OF p(2), of s]
  obtain account access_key where vals: "parse_values s (lit ''accountname'') = Some account" "account \<noteq> []"
    "parse_values s (lit ''accountkey'') = Some access_key" "access_key \<noteq> []"
    "az_account info = account" "az_access_key info = access_key"
    using assms(1) azure_accepts [of s] by auto
  have f: "filter_nonempty (Some []) = None" "filter_nonempty (Some account) = Some account"
    "filter_nonempty (Some access_key) = Some access_key"
    using vals(2,4) by (simp_all add: filter_nonempty_def)
  have "parse_connection_string (s @ lit '';BlobEndpoint='') = parse_connection_string s"
    unfolding l(1) parse_connection_string_def v(1) store_pair_def
    by (simp add: lower vals(1,3) f assms(2) Let_def split: option.split)
  moreover have "parse_connection_string (s @ lit '';EndpointSuffix='') = Inr (info
      \<lparr>az_endpoint := Some e, az_allow_http := starts_with (lit ''http://'') (to_ascii_lowercase e)
         \<or> map_option to_ascii_lowercase (parse_values s (lit ''defaultendpointsprotocol'')) = Some (lit ''http'')\<rparr>)"
    if "e = azure_endpoint (case parse_values s (lit ''defaultendpointsprotocol'') of
          None \<Rightarrow> lit ''https'' | Some p \<Rightarrow> p) account []" for e
    unfolding l(2) parse_connection_string_def v(2) store_pair_def that
    using vals f assms(2)
    by (cases info; cases "parse_values s (lit ''defaultendpointsprotocol'')")
       (simp_all add: lower azure_endpoint_def Let_def)
  ultimately show ?thesis using assms(1) vals(5) by simp
qed

theorem empty_suffix_kept_witness:
  "\<exists>info. parse_connection_string (lit ''AccountName=a;AccountKey=k;EndpointSuffix='') = Inr info
     \<and> az_endpoint info = Some (lit ''https://a.blob.'')"
proof -
  have plain: "plain_pair (ACCOUNT_NAME, lit ''a'')" "plain_pair (ACCOUNT_KEY, lit ''k'')"
    by (simp_all add: plain_pair_def plain_key_def plain_value_def tight_def lit_eval)
  have s: "lit ''AccountName=a;AccountKey=k'' = print_segments [(ACCOUNT_NAME, lit ''a''), (ACCOUNT_KEY, lit ''k'')]"
    by (simp add: lit_def)
  have v: "parse_values (lit ''AccountName=a;AccountKey=k'')
      = fold store_pair [(ACCOUNT_NAME, lit ''a''), (ACCOUNT_KEY, lit ''k'')] Map.empty"
    unfolding s by (rule parse_values_print) (use plain in simp)
  have "parse_connection_string (lit ''AccountName=a;AccountKey=k'') = Inr \<lparr>az_account = lit ''a'',
      az_access_key = lit ''k'', az_endpoint = None, az_allow_http = False\<rparr>"
    by (simp add: parse_connection_string_def v store_pair_def filter_nonempty_def Let_def)
  moreover have "filter_nonempty (parse_values (lit ''AccountName=a;AccountKey=k'') (lit ''blobendpoint'')) = None"
    by (simp add: v store_pair_def filter_nonempty_def)
  ultimately obtain info where "parse_connection_string (lit ''AccountName=a;AccountKey=k'' @ lit '';EndpointSuffix='') = Inr info"
    "az_endpoint info = Some (azure_endpoint (lit ''https'') (lit ''a'') [])"
    using empty_suffix_kept [of "lit ''AccountName=a;AccountKey=k''"] v by (auto simp: store_pair_def)
  moreover have "azure_endpoint (lit ''https'') (lit ''a'') [] = lit ''https://a.blob.''"
    by (simp add: azure_endpoint_def) (simp add: lit_eval)
  moreover have "lit ''AccountName=a;AccountKey=k'' @ lit '';EndpointSuffix='' = lit ''AccountName=a;AccountKey=k;EndpointSuffix=''"
    by (simp add: lit_def)
  ultimately show ?thesis by auto
qed

section \<open>The store map\<close>

text \<open>
  C34: the stores are built if and only if every configured one can be built, and then the map has
  exactly the configured ids, each with its own store, in whatever order the hash map yields them.
\<close>

theorem build_stores_order_free:
  assumes "distinct (map fst configs)" and "distinct (map fst configs')" and "set configs = set configs'"
  shows "(build_stores b configs = Inr stores \<longleftrightarrow> build_stores b configs' = Inr stores)
    \<and> (build_stores b configs = Inr stores \<longleftrightarrow> all_build b configs \<and> stores = built b configs)"
proof -
  have ok: "build_stores b cs = Inr stores \<longleftrightarrow> all_build b cs \<and> stores = built b cs"
    if "distinct (map fst cs)" for cs
  proof (cases "all_build b cs")
    case True
    with that show ?thesis by (auto simp: build_stores_def build_stores_loop_ok)
  next
    case False
    from build_stores_loop_err [OF this, of Map.empty] False show ?thesis
      by (auto simp: build_stores_def)
  qed
  from ok [OF assms(1)] ok [OF assms(2)] all_build_perm [OF assms(3), of b]
    built_perm [OF assms(3,1,2), of b]
  show ?thesis by simp
qed

definition mem_builders :: store_builders where
  "mem_builders = \<lparr>build_s3 = (\<lambda>calls. Inr 1), build_azure = (\<lambda>calls. Inr 2)\<rparr>"

theorem build_stores_order_free_witness:
  "build_stores mem_builders [(lit ''x'', S3 [] [] [] [] None None), (lit ''y'', S3 [] [] [] [] None None)]
   = build_stores mem_builders [(lit ''y'', S3 [] [] [] [] None None), (lit ''x'', S3 [] [] [] [] None None)]"
proof -
  let ?x = "(lit ''x'', S3 [] [] [] [] None None)" and ?y = "(lit ''y'', S3 [] [] [] [] None None)"
  obtain m where "build_stores mem_builders [?x, ?y] = Inr m"
    by (simp add: build_stores_def build_store_def mem_builders_def)
  moreover from this have "build_stores mem_builders [?y, ?x] = Inr m"
    using build_stores_order_free [of "[?x, ?y]" "[?y, ?x]" mem_builders m] by auto
  ultimately show ?thesis by simp
qed

section \<open>The cache\<close>

text \<open>
  A cache starts exactly if it has a memory budget and everything it needs can be made: without
  a disk budget the in-memory cache alone, whatever the file system does and whatever disk path is
  configured; with one, the directory, the device on it and the hybrid cache. It has then counted
  no insertions.
\<close>

lemma foyer_starts_iff:
  "foyer_new b policy = Inr c \<longleftrightarrow>
     max_memory policy \<noteq> 0 \<and> fc_inserts c = 0
     \<and> (if max_disk policy = 0 then build_memory_only b (max_memory policy) = Inr (fc_cache c)
        else \<exists>dir device. (disk_path policy = Some dir \<or> disk_path policy = None \<and> dir = lit ''/tmp/cachegate_cache'')
          \<and> create_dir_all b dir = Inr () \<and> build_device b dir (max_disk policy) = Inr device
          \<and> build_with_disk b (max_memory policy) device = Inr (fc_cache c))"
proof -
  have c: "\<lparr>fc_cache = h, fc_inserts = 0\<rparr> = c \<longleftrightarrow> h = fc_cache c \<and> fc_inserts c = 0" for h
    by (cases c) auto
  show ?thesis
    by (cases "disk_path policy") (auto simp: foyer_new_def Let_def c)
qed

text \<open>
  Through the in-flight table, once a task leads a key every other acquisition of the key
  follows that leader's entry, whatever else happens to the table, until the entry is released; and
  after the release the key has a new leader.
\<close>

lemma one_leader_until_release:
  assumes "inflight_wf i" and "acquire key i = (Leader g, i')"
    and "ReleaseCall key (ig_entry g) \<notin> set calls"
    and "j = fold fl.flight_step calls i'"
  shows "acquire key j = (Follower (ig_entry g), j)
    \<and> (\<exists>g'. fst (acquire key (release key (ig_entry g) j)) = Leader g' \<and> ig_key g' = key)"
proof -
  have wf': "inflight_wf i'" using inflight_wf_acquire [OF assms(1), of key] assms(2) by simp
  have wf: "inflight_wf j" unfolding assms(4) by (rule fl.wf_flight [OF wf'])
  have f: "fst (acquire key j) = Follower (ig_entry g)"
    unfolding assms(4) by (rule fl.follow_until_release [OF assms(1-3)])
  then have t: "inner j key = Some (ig_entry g)"
    by (auto simp: acquire_def Let_def split: option.splits)
  from fl.acq_present [OF wf t] fl.lead_after_release [OF wf t] show ?thesis by simp
qed

end
