(* ===== verification/Reporting.thy ===== *)
theory Reporting
  imports Requests
begin

text \<open>
  Properties of what the server reports about itself: \<open>/stats\<close>, \<open>/metrics\<close>, the mapping of upstream
  errors, and the operation label of request spans.
\<close>

section \<open>\<open>/stats\<close>\<close>

text \<open>The six counters of a snapshot, by the field that shows them.\<close>

definition stat_fields :: "(rstr \<times> (stats_response \<Rightarrow> u64)) list" where
  "stat_fields =
     [(lit ''cachegate_requests_total'', st_requests_total),
      (lit ''cachegate_auth_fail_total'', st_auth_fail_total),
      (lit ''cachegate_cache_hit_total'', st_cache_hit_total),
      (lit ''cachegate_cache_miss_total'', st_cache_miss_total),
      (lit ''cachegate_upstream_ok_total'', st_upstream_ok_total),
      (lit ''cachegate_upstream_err_total'', st_upstream_err_total)]"

text \<open>
  C35: \<open>/stats\<close> reports, for every counter, the sum of all increments made so far over all labels,
  provided the registry reports what was recorded and no total is beyond \<open>2 ^ 53\<close>, up to which an
  \<open>f64\<close> counts; it changes nothing.
\<close>

theorem stats_exact:
  assumes "\<forall>(name, field) \<in> set stat_fields.
      families_report (w_metrics w) (reg_gather x (w_metrics w)) name \<and> counter_total name (w_metrics w) \<le> 2 ^ 53"
  shows "\<exists>s. run x t stats_handler w = (Done (RespondJson s), [], w)
    \<and> (\<forall>(name, field) \<in> set stat_fields. unat (field s) = counter_total name (w_metrics w))"
  using assms
  by (simp add: stats_handler_def exec_simps Let_def snapshot_def stat_fields_def sum_counter_total)

theorem stats_exact_witness:
  "\<exists>s. run mem_externals 0 stats_handler
       (mem_world\<lparr>w_metrics := [inc_requests (lit ''GET'') (lit ''200''), inc_requests (lit ''PUT'') (lit ''200''),
          inc_cache_hit (lit ''GET'')]\<rparr>)
     = (Done (RespondJson s), [], mem_world\<lparr>w_metrics := [inc_requests (lit ''GET'') (lit ''200''),
          inc_requests (lit ''PUT'') (lit ''200''), inc_cache_hit (lit ''GET'')]\<rparr>)
     \<and> unat (st_requests_total s) = 2 \<and> unat (st_cache_hit_total s) = 1"
proof -
  let ?evs = "[inc_requests (lit ''GET'') (lit ''200''), inc_requests (lit ''PUT'') (lit ''200''),
    inc_cache_hit (lit ''GET'')]"
  let ?w = "mem_world\<lparr>w_metrics := ?evs\<rparr>"
  have "\<forall>(name, field) \<in> set stat_fields.
      families_report (w_metrics ?w) (reg_gather mem_externals (w_metrics ?w)) name
      \<and> counter_total name (w_metrics ?w) \<le> 2 ^ 53"
    by (simp add: stat_fields_def mem_gather_report metrics_vecs_def metrics_new_def) (simp add: metric_event_defs)
  from stats_exact [OF this, of 0] show ?thesis
    by (auto simp: stat_fields_def metric_event_defs)
qed



text \<open>
  C38: the number of entries \<open>/stats\<close> reports is the number of insertions the cache was ever asked
  for (modulo \<open>2 ^ 64\<close>), so putting one key again raises it and eviction does not lower it; the number
  of bytes is always reported as zero.
\<close>

theorem stats_entries_are_inserts:
  assumes "w_cache w = fold (foyer.call_state (ex_hybrid x)) calls \<lparr>fc_cache = h, fc_inserts = 0\<rparr>"
  shows "\<exists>s. run x t stats_handler w = (Done (RespondJson s), [], w)
    \<and> st_cache_entries s = of_nat (length (filter is_put calls)) \<and> st_cache_bytes s = 0"
  using assms foyer.stats_calls [of "ex_hybrid x" calls "\<lparr>fc_cache = h, fc_inserts = 0\<rparr>"]
  by (simp add: stats_handler_def exec_simps Let_def foyer_stats_def)

theorem stats_entries_are_inserts_witness:
  "\<exists>s. run mem_externals 0 stats_handler (mem_world\<lparr>w_cache :=
        fold (foyer.call_state mem_hybrid) [PutCall mem_key [1] None, PutCall mem_key [2] None] (w_cache mem_world)\<rparr>)
     = (Done (RespondJson s), [], mem_world\<lparr>w_cache :=
        fold (foyer.call_state mem_hybrid) [PutCall mem_key [1] None, PutCall mem_key [2] None] (w_cache mem_world)\<rparr>)
     \<and> st_cache_entries s = 2"
proof -
  let ?w = "mem_world\<lparr>w_cache := fold (foyer.call_state mem_hybrid)
    [PutCall mem_key [1] None, PutCall mem_key [2] None] (w_cache mem_world)\<rparr>"
  have "w_cache ?w = fold (foyer.call_state (ex_hybrid mem_externals))
      [PutCall mem_key [1] None, PutCall mem_key [2] None] \<lparr>fc_cache = Map.empty, fc_inserts = 0\<rparr>"
    by (simp add: mem_world_def world_init_def)
  from stats_entries_are_inserts [OF this, of 0] show ?thesis by (auto simp: is_put_def)
qed

section \<open>Upstream errors\<close>

text \<open>
  The status of an upstream failure and the label it is counted under agree: 404 exactly when
  the label is \<open>not_found\<close>, and 502 for every other kind; the six labels are distinct.
\<close>

lemma upstream_error_mapping:
  "ae_status (from_store err) = (if from_store_error err = NotFound then 404 else 502)
   \<and> (upstream_error_kind_as_str (from_store_error err) = lit ''not_found'' \<longleftrightarrow> ae_status (from_store err) = 404)
   \<and> rs_status (app_error_into_response (from_store err)) = ae_status (from_store err)
   \<and> rs_body (app_error_into_response (from_store err)) = TextBody (ae_message (from_store err))"
  by (cases err) (simp_all add: not_found_def app_error_into_response_def)

section \<open>Span labels\<close>

text \<open>
  On the object route the operation label depends on \<open>HEAD\<close> only: an upload is labelled as a
  \<open>GET\<close>, so spans of the two cannot be told apart by it.
\<close>

lemma span_op_put_is_get:
  "span_op (Some object_route) (lit ''PUT'') = lit ''http.r.get_object''
   \<and> span_op (Some object_route) (lit ''PUT'') = span_op (Some object_route) (lit ''GET'')
   \<and> (span_op (Some object_route) m = lit ''http.r.head_object'' \<longleftrightarrow> m = lit ''HEAD'')"
  by (simp add: span_op_def)

end
