(* ===== verification/Startup.thy ===== *)
theory Startup
  imports Requests
begin

text \<open>
  Model of the start of the program in \<open>src/main.rs\<close>: the arguments and the configuration source,
  \<open>keygen\<close>, and \<open>async_main\<close>, which builds the application state. Theory \<open>Launch\<close> has \<open>main\<close> itself.
\<close>

section \<open>Arguments\<close>

record keygen_args =
  kg_out :: rstr
  kg_force :: bool

datatype command = Keygen keygen_args

record args =
  arg_command :: "command option"
  arg_config :: "rstr option"

datatype config_source = Env | File rstr

definition source_of_args :: "args \<Rightarrow> anyhow + config_source" where
  "source_of_args a =
     (case arg_config a of
        Some v \<Rightarrow> if v = lit ''env'' then Inr Env else Inr (File v)
      | None \<Rightarrow> Inl [lit ''config source must be specified with --config, either 'env' or a file path''])"

definition load_config ::
    "(rstr \<Rightarrow> rstr option) \<Rightarrow> (rstr \<Rightarrow> anyhow + config) \<Rightarrow> (rstr \<Rightarrow> anyhow + config)
      \<Rightarrow> (rstr \<Rightarrow> anyhow + rstr) \<Rightarrow> config_source \<Rightarrow> anyhow + config" where
  "load_config env_var yaml_from_str envious_build read_to_string source =
     (case source of
        Env \<Rightarrow> context_msg (lit ''failed to load config from env'')
                 (load_from_env env_var yaml_from_str envious_build)
      | File path \<Rightarrow>
          and_then (context_msg (lit ''failed to read config file '' @ path) (read_to_string path))
            (\<lambda>raw. context_msg (lit ''failed to parse config file'') (yaml_from_str raw)))"

section \<open>Key generation\<close>

text \<open>
  The file system is a map from paths to contents. \<open>kg_seed\<close> is what the random generator gives,
  \<open>kg_public\<close> the public key's bytes, and \<open>kg_write\<close> may fail.
\<close>

type_synonym files = "rstr \<Rightarrow> rstr option"

record auth_key_pair =
  akp_public_key :: rstr
  akp_private_key :: rstr

record auth_key_yaml =
  aky_auth :: auth_key_pair

record keygen_libs =
  kg_seed :: bytes
  kg_public :: "bytes \<Rightarrow> bytes"
  b64url_encode :: "bytes \<Rightarrow> rstr"
  yaml_to_string :: "auth_key_yaml \<Rightarrow> anyhow + rstr"
  kg_write :: "rstr \<Rightarrow> rstr \<Rightarrow> files \<Rightarrow> anyhow + files"

definition run_keygen :: "keygen_libs \<Rightarrow> keygen_args \<Rightarrow> files \<Rightarrow> anyhow + files" where
  "run_keygen k a fs =
     (if fs (kg_out a) \<noteq> None \<and> \<not> kg_force a
      then Inl [lit ''output file already exists: '' @ kg_out a]
      else
        (let signing_key = kg_seed k;
             private_key = b64url_encode k signing_key;
             public_key = b64url_encode k (kg_public k signing_key);
             output = \<lparr>aky_auth = \<lparr>akp_public_key = public_key, akp_private_key = private_key\<rparr>\<rparr>
         in and_then (yaml_to_string k output) (\<lambda>yaml. kg_write k (kg_out a) yaml fs)))"

section \<open>\<open>async_main\<close>\<close>

definition effective_cap :: "cache_policy \<Rightarrow> u64" where
  "effective_cap policy = (if max_object_size policy = 0 then max_memory policy else max_object_size policy)"

definition auth_chain :: "auth_error + 'a \<Rightarrow> anyhow + 'a" where
  "auth_chain r = (case r of Inl e \<Rightarrow> Inl [auth_error_message e] | Inr v \<Rightarrow> Inr v)"

definition async_main ::
    "'vk auth_libs \<Rightarrow> store_builders \<Rightarrow> ('h, 'd) foyer_builders \<Rightarrow> config
      \<Rightarrow> anyhow + ('vk app_state \<times> 'h foyer_cache \<times> rstr)" where
  "async_main a sb fb cfg =
     and_then (context_msg (lit ''failed to initialize auth'') (auth_chain (from_config a (cfg_auth cfg)))) (\<lambda>auth.
     and_then (context_msg (lit ''failed to build stores'') (build_stores sb (cfg_stores cfg))) (\<lambda>stores.
     and_then (context_msg (lit ''Failed to foyer cache'') (foyer_new fb (cfg_cache cfg))) (\<lambda>cache.
       Inr (\<lparr>as_stores = stores, as_auth = auth,
              as_cache_max_object_bytes = effective_cap (cfg_cache cfg)\<rparr>, cache, listen cfg))))"

section \<open>Properties\<close>

text \<open>
  A server that starts has a verified key pair, one store per configured bucket, and a cap that
  is never zero: it is the configured object size, or the memory budget if that is zero, so a
  started server always caches objects that are small enough.
\<close>

lemma started_server:
  assumes "async_main a sb fb cfg = Inr (st, cache, addr)" and "distinct (map fst (cfg_stores cfg))"
  shows "from_config a (cfg_auth cfg) = Inr (as_auth st)
    \<and> dom (as_stores st) = fst ` set (cfg_stores cfg)
    \<and> as_cache_max_object_bytes st \<noteq> 0 \<and> cacheable st []
    \<and> as_cache_max_object_bytes st = effective_cap (cfg_cache cfg)
    \<and> fc_inserts cache = 0 \<and> addr = listen cfg"
proof -
  from assms(1) have auth: "from_config a (cfg_auth cfg) = Inr (as_auth st)"
    and stores: "build_stores sb (cfg_stores cfg) = Inr (as_stores st)"
    and cache: "foyer_new fb (cfg_cache cfg) = Inr cache"
    and cap: "as_cache_max_object_bytes st = effective_cap (cfg_cache cfg)" "addr = listen cfg"
    by (auto simp: async_main_def auth_chain_def split: sum.splits)
  have all: "all_build sb (cfg_stores cfg)"
    using stores build_stores_loop_err [of sb "cfg_stores cfg" Map.empty]
    by (fastforce simp: build_stores_def)
  then have "as_stores st = built sb (cfg_stores cfg)"
    using stores build_stores_loop_ok [OF assms(2) all, of Map.empty] by (simp add: build_stores_def)
  moreover have "dom (built sb (cfg_stores cfg)) = fst ` set (cfg_stores cfg)"
  proof -
    have "built sb (cfg_stores cfg) i \<noteq> None \<longleftrightarrow> map_of (cfg_stores cfg) i \<noteq> None" for i
      using all by (force simp: built_def all_build_def dest: map_of_SomeD split: option.splits sum.splits)
    then show ?thesis by (auto simp: dom_def map_of_eq_None_iff)
  qed
  moreover have "max_memory (cfg_cache cfg) \<noteq> 0" "fc_inserts cache = 0"
    using cache by (auto simp: foyer_new_def Let_def split: if_splits)
  ultimately show ?thesis
    using auth cap by (auto simp: effective_cap_def cacheable_def)
qed

definition mem_config :: config where
  "mem_config = \<lparr>listen = lit ''0.0.0.0:80'', cfg_stores = [(lit ''b'', S3 [] [] [] [] None None)],
     cfg_auth = \<lparr>public_key = replicate 32 7, private_key = replicate 32 7, cfg_bearer_token = None\<rparr>,
     cfg_cache = \<lparr>max_memory = 1000, max_object_size = 0, max_disk = 0, disk_path = None\<rparr>,
     cfg_sentry = None\<rparr>"

definition mem_store_builders :: store_builders where
  "mem_store_builders = \<lparr>build_s3 = (\<lambda>calls. Inr 0), build_azure = (\<lambda>calls. Inr 1)\<rparr>"

definition mem_foyer_builders :: "(mem_cache, unit) foyer_builders" where
  "mem_foyer_builders = \<lparr>build_memory_only = (\<lambda>n. Inr Map.empty), create_dir_all = (\<lambda>d. Inr ()),
     build_device = (\<lambda>d n. Inr ()), build_with_disk = (\<lambda>n d. Inr Map.empty)\<rparr>"

lemma mem_started:
  "\<exists>st cache. async_main mem_auth mem_store_builders mem_foyer_builders mem_config
     = Inr (st, cache, lit ''0.0.0.0:80'')"
  by (simp add: async_main_def mem_config_def from_config_def decode_key_def try_into_array_def
      auth_chain_def build_stores_def build_store_def mem_store_builders_def foyer_new_def
      mem_foyer_builders_def Let_def)

text \<open>
  C40: \<open>keygen\<close> without \<open>--force\<close> never touches an existing file, and what it writes is accepted: the
  server started with the generated pair verifies with the generated key. This rests on Base64
  decoding what it encoded and on the key pair's 32-byte halves belonging together.
\<close>

theorem keygen_pair_accepted:
  assumes "\<And>bs. b64url_decode a (b64url_encode k bs) = Some bs"
    and "length (kg_seed k) = 32" and "length (kg_public k (kg_seed k)) = 32"
    and "verifying_key_from_bytes a (kg_public k (kg_seed k)) = Some (signing_key_public a (kg_seed k))"
    and "yaml_to_string k \<lparr>aky_auth = \<lparr>akp_public_key = b64url_encode k (kg_public k (kg_seed k)),
      akp_private_key = b64url_encode k (kg_seed k)\<rparr>\<rparr> = Inr yaml"
    and "fs (kg_out ar) = None \<or> kg_force ar"
    and "cfg = \<lparr>public_key = b64url_encode k (kg_public k (kg_seed k)),
      private_key = b64url_encode k (kg_seed k), cfg_bearer_token = tok\<rparr>"
  shows "run_keygen k ar fs = kg_write k (kg_out ar) yaml fs
    \<and> from_config a cfg = Inr \<lparr>verifying_key = signing_key_public a (kg_seed k), bearer_token = tok\<rparr>
    \<and> run_keygen k \<lparr>kg_out = kg_out ar, kg_force = False\<rparr> (fs(kg_out ar \<mapsto> old))
        = Inl [lit ''output file already exists: '' @ kg_out ar]"
  using assms by (auto simp: run_keygen_def from_config_def decode_key_def Let_def try_into_array_def)

definition mem_keygen :: keygen_libs where
  "mem_keygen = \<lparr>kg_seed = replicate 32 9, kg_public = (\<lambda>s. s), b64url_encode = map unat,
     yaml_to_string = (\<lambda>y. Inr (akp_public_key (aky_auth y) @ akp_private_key (aky_auth y))), kg_write = (\<lambda>p c fs. Inr (fs(p \<mapsto> c)))\<rparr>"

lemma mem_keygen_sel [simp]:
  "kg_seed mem_keygen = replicate 32 9" "kg_public mem_keygen s = s"
  "b64url_encode mem_keygen = map unat" "yaml_to_string mem_keygen y = Inr (akp_public_key (aky_auth y) @ akp_private_key (aky_auth y))"
  "kg_write mem_keygen p c fs = Inr (fs(p \<mapsto> c))"
  by (simp_all add: mem_keygen_def)

theorem keygen_pair_accepted_witness:
  "from_config mem_auth \<lparr>public_key = replicate 32 9, private_key = replicate 32 9, cfg_bearer_token = None\<rparr>
     = Inr \<lparr>verifying_key = 9, bearer_token = None\<rparr>"
proof -
  have d: "b64url_decode mem_auth (b64url_encode mem_keygen bs) = Some bs" for bs
    by (simp add: comp_def)
  from keygen_pair_accepted [OF d, of _ Map.empty "\<lparr>kg_out = lit ''k'', kg_force = False\<rparr>" _ None]
  show ?thesis by simp
qed

end
