(* ===== verification/Launch.thy ===== *)
theory Launch
  imports Startup
begin

text \<open>
  Model of \<open>main\<close> in \<open>src/main.rs\<close>: Sentry and logging set-up, and the whole way from the arguments
  to the served router or to the error or panic the process ends with. The process is what these
  steps leave behind: the files, the Sentry client, the global subscriber and what is being served.
\<close>

section \<open>Sentry\<close>

text \<open>
  The fields of \<open>sentry::ClientOptions\<close> that the code sets; the others keep their defaults. The
  client is its options. \<open>expect\<close> panics. The bits of \<open>0.1\<close> are \<open>0x3DCCCCCD\<close>.
\<close>

type_synonym panic = rstr

record 'd client_options =
  so_dsn :: "'d option"
  so_environment :: "rstr option"
  so_release :: "rstr option"
  so_traces_sample_rate :: f32
  so_debug :: bool

definition init_sentry ::
    "(rstr \<Rightarrow> 'd option) \<Rightarrow> rstr option \<Rightarrow> config \<Rightarrow> panic + 'd client_options option" where
  "init_sentry parse_dsn release_name cfg =
     (case cfg_sentry cfg of
        None \<Rightarrow> Inr None
      | Some sentry_cfg \<Rightarrow>
          (case parse_dsn (dsn sentry_cfg) of
             None \<Rightarrow> Inl (lit ''Bad sentry DSN'')
           | Some d \<Rightarrow> Inr (Some
               \<lparr>so_dsn = Some d,
                so_environment = environment sentry_cfg,
                so_release = release_name,
                so_traces_sample_rate =
                  (case traces_sample_rate sentry_cfg of None \<Rightarrow> 0x3DCCCCCD | Some r \<Rightarrow> r),
                so_debug = (case debug sentry_cfg of None \<Rightarrow> False | Some b \<Rightarrow> b)\<rparr>)))"

section \<open>Logging\<close>

record fmt_layer =
  fl_pretty :: bool
  fl_target :: bool
  fl_thread_ids :: bool

datatype 'f boxed_layer = FmtLayer fmt_layer 'f | ErrorLayer | SentryLayer 'f

definition make_fmt_layer :: "bool \<Rightarrow> fmt_layer" where
  "make_fmt_layer enable_pretty =
     (if enable_pretty then \<lparr>fl_pretty = True, fl_target = False, fl_thread_ids = True\<rparr>
      else \<lparr>fl_pretty = False, fl_target = False, fl_thread_ids = True\<rparr>)"

definition enable_pretty :: "(rstr \<Rightarrow> rstr option) \<Rightarrow> bool" where
  "enable_pretty env_var =
     (case env_var (lit ''CACHEGATE_LOG_PRETTY'') of
        None \<Rightarrow> False
      | Some v \<Rightarrow> v = lit ''1'' \<or> eq_ignore_ascii_case v (lit ''true''))"

text \<open>
  \<open>env_filter\<close> is \<open>EnvFilter::try_from_default_env\<close> and \<open>filter_new\<close> is \<open>EnvFilter::new\<close>. The global
  subscriber can be set once; the second time \<open>expect\<close> panics.
\<close>

definition init_tracing ::
    "(rstr \<Rightarrow> rstr option) \<Rightarrow> 'f option \<Rightarrow> (rstr \<Rightarrow> 'f) \<Rightarrow> bool
      \<Rightarrow> 'f boxed_layer list option \<Rightarrow> panic + 'f boxed_layer list option" where
  "init_tracing env_var env_filter filter_new sentry_enabled global =
     (let filter = (case env_filter of Some f \<Rightarrow> f | None \<Rightarrow> filter_new (lit ''info''));
          layers = [FmtLayer (make_fmt_layer (enable_pretty env_var)) filter];
          layers = layers @ [ErrorLayer];
          layers = (if sentry_enabled then layers @ [SentryLayer filter] else layers)
      in case global of
           None \<Rightarrow> Inr (Some layers)
         | Some _ \<Rightarrow> Inl (lit ''Failed to set global subscriber''))"

section \<open>\<open>main\<close>\<close>

text \<open>
  The libraries \<open>main\<close> uses, besides those of the parts it calls. \<open>serve\<close> serves a router on a bound
  listener and returns when that ends. \<open>ml_parse_args\<close> is clap's \<open>Args::parse\<close>: on a usage error, and for
  \<open>--help\<close>, it prints a message and ends the process with a status code (\<open>Inl\<close>).
\<close>

record ('vk, 'h, 'd, 'dsn, 'f, 'l) main_libs =
  ml_parse_args :: "rstr list \<Rightarrow> nat + args"
  ml_env :: "rstr \<Rightarrow> rstr option"
  ml_yaml :: "rstr \<Rightarrow> anyhow + config"
  ml_envious :: "rstr \<Rightarrow> anyhow + config"
  ml_read :: "files \<Rightarrow> rstr \<Rightarrow> anyhow + rstr"
  ml_keygen :: keygen_libs
  ml_parse_dsn :: "rstr \<Rightarrow> 'dsn option"
  ml_release :: "rstr option"
  ml_env_filter :: "'f option"
  ml_filter_new :: "rstr \<Rightarrow> 'f"
  ml_runtime :: "anyhow + unit"
  ml_auth :: "'vk auth_libs"
  ml_stores :: store_builders
  ml_foyer :: "('h, 'd) foyer_builders"
  ml_http :: http_libs
  ml_encode :: "metric_family list \<Rightarrow> bytes option"
  ml_utf8 :: "bytes \<Rightarrow> rstr option"
  ml_bind :: "rstr \<Rightarrow> anyhow + 'l"
  ml_serve :: "'l \<Rightarrow> (request \<Rightarrow> prog option) \<Rightarrow> anyhow + unit"

record ('vk, 'h, 'dsn, 'f, 'l) process =
  pr_files :: files
  pr_sentry :: "'dsn client_options option"
  pr_subscriber :: "'f boxed_layer list option"
  pr_served :: "('vk app_state \<times> 'h foyer_cache \<times> 'l) option"

text \<open>How the process ends: \<open>main\<close> returns, a panic, or clap ends it.\<close>

datatype exit = Returned "anyhow + unit" | Panicked panic | Exited nat

text \<open>The end of \<open>run_server\<close>: bind the listener, serve the router.\<close>

definition serve_on ::
    "('vk, 'h, 'd, 'dsn, 'f, 'l) main_libs \<Rightarrow> 'vk app_state \<Rightarrow> 'h foyer_cache \<Rightarrow> rstr
      \<Rightarrow> ('vk, 'h, 'dsn, 'f, 'l) process
      \<Rightarrow> (anyhow + unit) \<times> ('vk, 'h, 'dsn, 'f, 'l) process" where
  "serve_on ml st cache addr s =
     (case context_msg (lit ''failed to bind to '' @ addr) (ml_bind ml addr) of
        Inl err \<Rightarrow> (Inl err, s)
      | Inr listener \<Rightarrow>
          (context_msg (lit ''server failed'')
             (ml_serve ml listener (run_server (ml_http ml) (ml_auth ml) (ml_encode ml) (ml_utf8 ml) st)),
           s\<lparr>pr_served := Some (st, cache, listener)\<rparr>))"

definition main_config ::
    "('vk, 'h, 'd, 'dsn, 'f, 'l) main_libs \<Rightarrow> args \<Rightarrow> files \<Rightarrow> anyhow + config" where
  "main_config ml a fs =
     and_then (source_of_args a) (load_config (ml_env ml) (ml_yaml ml) (ml_envious ml) (ml_read ml fs))"

text \<open>What \<open>main\<close> does with a configuration.\<close>

definition launch ::
    "('vk, 'h, 'd, 'dsn, 'f, 'l) main_libs \<Rightarrow> config \<Rightarrow> ('vk, 'h, 'dsn, 'f, 'l) process
      \<Rightarrow> exit \<times> ('vk, 'h, 'dsn, 'f, 'l) process" where
  "launch ml cfg s =
     (case init_sentry (ml_parse_dsn ml) (ml_release ml) cfg of
        Inl msg \<Rightarrow> (Panicked msg, s)
      | Inr guard \<Rightarrow>
          (case init_tracing (ml_env ml) (ml_env_filter ml) (ml_filter_new ml)
                  (guard \<noteq> None) (pr_subscriber s) of
             Inl msg \<Rightarrow> (Panicked msg, s\<lparr>pr_sentry := guard\<rparr>)
           | Inr global \<Rightarrow>
               let s = s\<lparr>pr_sentry := guard, pr_subscriber := global\<rparr> in
               (case ml_runtime ml of
                  Inl err \<Rightarrow> (Returned (Inl err), s)
                | Inr _ \<Rightarrow>
                    (case async_main (ml_auth ml) (ml_stores ml) (ml_foyer ml) cfg of
                       Inl err \<Rightarrow> (Returned (Inl err), s)
                     | Inr (st, cache, addr) \<Rightarrow>
                         (let (r, s) = serve_on ml st cache addr s in (Returned r, s))))))"

definition main ::
    "('vk, 'h, 'd, 'dsn, 'f, 'l) main_libs \<Rightarrow> rstr list \<Rightarrow> ('vk, 'h, 'dsn, 'f, 'l) process
      \<Rightarrow> exit \<times> ('vk, 'h, 'dsn, 'f, 'l) process" where
  "main ml argv s =
     (case ml_parse_args ml argv of
        Inl status \<Rightarrow> (Exited status, s)
      | Inr a \<Rightarrow>
          (case arg_command a of
             Some (Keygen command_args) \<Rightarrow>
               (case run_keygen (ml_keygen ml) command_args (pr_files s) of
                  Inl err \<Rightarrow> (Returned (Inl err), s)
                | Inr fs \<Rightarrow> (Returned (Inr ()), s\<lparr>pr_files := fs\<rparr>))
           | None \<Rightarrow>
               (case main_config ml a (pr_files s) of
                  Inl err \<Rightarrow> (Returned (Inl err), s)
                | Inr cfg \<Rightarrow> launch ml cfg s)))"

section \<open>The stages\<close>

lemma init_sentry_panics:
  "init_sentry parse_dsn rel cfg = Inl msg \<longleftrightarrow>
     msg = lit ''Bad sentry DSN'' \<and> (\<exists>sc. cfg_sentry cfg = Some sc \<and> parse_dsn (dsn sc) = None)"
  by (auto simp: init_sentry_def split: option.splits)

lemma init_sentry_enabled:
  "init_sentry parse_dsn rel cfg = Inr guard \<Longrightarrow> guard \<noteq> None \<longleftrightarrow> cfg_sentry cfg \<noteq> None"
  by (auto simp: init_sentry_def split: option.splits)

text \<open>The layers a fresh process installs.\<close>

definition log_layers :: "('vk, 'h, 'd, 'dsn, 'f, 'l) main_libs \<Rightarrow> bool \<Rightarrow> 'f boxed_layer list" where
  "log_layers ml sentry_enabled =
     (let filter = (case ml_env_filter ml of Some f \<Rightarrow> f | None \<Rightarrow> ml_filter_new ml (lit ''info''))
      in FmtLayer \<lparr>fl_pretty = enable_pretty (ml_env ml), fl_target = False, fl_thread_ids = True\<rparr> filter
         # ErrorLayer # (if sentry_enabled then [SentryLayer filter] else []))"

lemma init_tracing_fresh:
  "init_tracing (ml_env ml) (ml_env_filter ml) (ml_filter_new ml) b None = Inr (Some (log_layers ml b))"
  by (simp add: init_tracing_def log_layers_def make_fmt_layer_def Let_def)

lemma serve_on_simps:
  "fst (serve_on ml st cache addr s) = Inl err \<longleftrightarrow>
     (\<exists>chain. ml_bind ml addr = Inl chain \<and> err = (lit ''failed to bind to '' @ addr) # chain)
     \<or> (\<exists>listener chain. ml_bind ml addr = Inr listener
          \<and> ml_serve ml listener (run_server (ml_http ml) (ml_auth ml) (ml_encode ml) (ml_utf8 ml) st)
              = Inl chain \<and> err = lit ''server failed'' # chain)"
  "pr_served (snd (serve_on ml st cache addr s)) =
     (case ml_bind ml addr of Inl _ \<Rightarrow> pr_served s | Inr listener \<Rightarrow> Some (st, cache, listener))"
  "pr_sentry (snd (serve_on ml st cache addr s)) = pr_sentry s"
  "pr_subscriber (snd (serve_on ml st cache addr s)) = pr_subscriber s"
  by (auto simp: serve_on_def context_msg_def split: sum.splits)

lemma launch_fresh:
  assumes "pr_subscriber s = None"
  shows "launch ml cfg s =
     (case init_sentry (ml_parse_dsn ml) (ml_release ml) cfg of
        Inl msg \<Rightarrow> (Panicked msg, s)
      | Inr guard \<Rightarrow>
          let s = s\<lparr>pr_sentry := guard, pr_subscriber := Some (log_layers ml (cfg_sentry cfg \<noteq> None))\<rparr> in
          (case and_then (ml_runtime ml) (\<lambda>_. async_main (ml_auth ml) (ml_stores ml) (ml_foyer ml) cfg) of
             Inl err \<Rightarrow> (Returned (Inl err), s)
           | Inr (st, cache, addr) \<Rightarrow>
               (Returned (fst (serve_on ml st cache addr s)), snd (serve_on ml st cache addr s))))"
proof (cases "init_sentry (ml_parse_dsn ml) (ml_release ml) cfg")
  case (Inl m)
  then show ?thesis by (simp add: launch_def)
next
  case (Inr guard)
  then have "guard \<noteq> None \<longleftrightarrow> cfg_sentry cfg \<noteq> None" by (rule init_sentry_enabled)
  with Inr show ?thesis
    by (simp add: launch_def assms init_tracing_fresh and_then_def Let_def split: sum.split prod.split)
qed

text \<open>A launch panics for a DSN that does not parse, and then has changed nothing; else it returns.\<close>

lemma launch_ends:
  assumes "pr_subscriber s = None"
  shows "if \<exists>sc. cfg_sentry cfg = Some sc \<and> ml_parse_dsn ml (dsn sc) = None
    then launch ml cfg s = (Panicked (lit ''Bad sentry DSN''), s)
    else \<exists>r. fst (launch ml cfg s) = Returned r"
proof (cases "init_sentry (ml_parse_dsn ml) (ml_release ml) cfg")
  case (Inl m)
  from Inl [unfolded init_sentry_panics] show ?thesis by (auto simp: launch_fresh [OF assms] Inl)
next
  case r: (Inr guard)
  have "\<not> (\<exists>sc. cfg_sentry cfg = Some sc \<and> ml_parse_dsn ml (dsn sc) = None)"
    using r init_sentry_panics [of "ml_parse_dsn ml" "ml_release ml" cfg "lit ''Bad sentry DSN''"] by auto
  then show ?thesis
    by (simp add: launch_fresh [OF assms] r Let_def split: sum.split prod.split)
qed

text \<open>The four ways a start can go.\<close>

lemma main_cases:
  obtains (exited) status where "ml_parse_args ml argv = Inl status" "main ml argv s = (Exited status, s)"
  | (keygen) a c r fs where "ml_parse_args ml argv = Inr a" "arg_command a = Some c"
      "main ml argv s = (Returned r, s\<lparr>pr_files := fs\<rparr>)"
  | (no_config) a err where "ml_parse_args ml argv = Inr a" "arg_command a = None"
      "main_config ml a (pr_files s) = Inl err" "main ml argv s = (Returned (Inl err), s)"
  | (config) a cfg where "ml_parse_args ml argv = Inr a" "arg_command a = None"
      "main_config ml a (pr_files s) = Inr cfg" "main ml argv s = launch ml cfg s"
proof (cases "ml_parse_args ml argv")
  case (Inl status)
  with exited show ?thesis by (simp add: main_def)
next
  case args: (Inr a)
  show ?thesis
  proof (cases "arg_command a")
    case None
    with args no_config config show ?thesis
      by (cases "main_config ml a (pr_files s)") (simp_all add: main_def)
  next
    case (Some c)
    obtain r fs where "main ml argv s = (Returned r, s\<lparr>pr_files := fs\<rparr>)"
    proof (cases c)
      case (Keygen g)
      show ?thesis
      proof (cases "run_keygen (ml_keygen ml) g (pr_files s)")
        case (Inl err)
        with that [of "Inl err" "pr_files s"] args Some Keygen show ?thesis by (simp add: main_def)
      next
        case (Inr fs)
        with that args Some Keygen show ?thesis by (simp add: main_def)
      qed
    qed
    with args Some keygen show ?thesis by blast
  qed
qed

section \<open>Properties\<close>

text \<open>A process on the in-memory outside, with one configuration file whose DSN is bad.\<close>

definition mem_bad_dsn :: config where
  "mem_bad_dsn = mem_config\<lparr>cfg_sentry := Some \<lparr>dsn = lit ''x'', environment = None,
     traces_sample_rate = None, debug = None\<rparr>\<rparr>"

text \<open>Of the command line only the configuration source is read; without one, clap exits.\<close>

definition mem_parse_args :: "rstr list \<Rightarrow> nat + args" where
  "mem_parse_args argv =
     (case argv of [src] \<Rightarrow> Inr \<lparr>arg_command = None, arg_config = Some src\<rparr> | _ \<Rightarrow> Inl 2)"

definition mem_main :: "(u8, mem_cache, unit, unit, rstr, nat) main_libs" where
  "mem_main = \<lparr>ml_parse_args = mem_parse_args, ml_env = (\<lambda>_. None), ml_yaml = (\<lambda>raw. Inr mem_bad_dsn), ml_envious = (\<lambda>_. Inr mem_config),
     ml_read = (\<lambda>fs p. case fs p of None \<Rightarrow> Inl [lit ''No such file''] | Some c \<Rightarrow> Inr c),
     ml_keygen = mem_keygen, ml_parse_dsn = (\<lambda>_. None), ml_release = None, ml_env_filter = None,
     ml_filter_new = (\<lambda>s. s), ml_runtime = Inr (), ml_auth = mem_auth, ml_stores = mem_store_builders,
     ml_foyer = mem_foyer_builders, ml_http = mem_libs, ml_encode = (\<lambda>_. None), ml_utf8 = (\<lambda>_. None),
     ml_bind = (\<lambda>_. Inr 0), ml_serve = (\<lambda>_ _. Inr ())\<rparr>"

definition mem_process :: "(u8, mem_cache, unit, rstr, nat) process" where
  "mem_process = \<lparr>pr_files = [lit ''c.yaml'' \<mapsto> []], pr_sentry = None, pr_subscriber = None, pr_served = None\<rparr>"

lemma mem_main_config:
  "main_config mem_main \<lparr>arg_command = None, arg_config = Some (lit ''env'')\<rparr> (pr_files mem_process) = Inr mem_config"
  "main_config mem_main \<lparr>arg_command = None, arg_config = Some (lit ''c.yaml'')\<rparr> (pr_files mem_process) = Inr mem_bad_dsn"
  by (simp_all add: main_config_def source_of_args_def load_config_def load_from_env_def mem_main_def
      mem_process_def)

lemma mem_main_args:
  "ml_parse_args mem_main [src] = Inr \<lparr>arg_command = None, arg_config = Some src\<rparr>"
  by (simp add: mem_main_def mem_parse_args_def)

text \<open>
  C39: how a fresh process can end. It panics in exactly one case: the arguments parsed, the
  configuration was read, it has a Sentry section, and that section's DSN does not parse. It is ended
  by clap exactly if the arguments do not parse. In both cases nothing has been installed or written
  and nothing is served. Every other mistake, in the configuration, the keys, the stores, the cache
  or the address, is therefore an error that \<open>main\<close> returns. (Panics inside library calls, such as
  printing to a closed standard output, are not modelled.)
\<close>

theorem main_panics_iff:
  assumes "pr_subscriber s = None"
  shows "(fst (main ml argv s) = Panicked msg \<longleftrightarrow> msg = lit ''Bad sentry DSN''
       \<and> (\<exists>a cfg sc. ml_parse_args ml argv = Inr a \<and> arg_command a = None
            \<and> main_config ml a (pr_files s) = Inr cfg \<and> cfg_sentry cfg = Some sc
            \<and> ml_parse_dsn ml (dsn sc) = None))
   \<and> (fst (main ml argv s) = Exited status \<longleftrightarrow> ml_parse_args ml argv = Inl status)
   \<and> ((\<exists>r. fst (main ml argv s) = Returned r) \<or> snd (main ml argv s) = s)"
proof (cases ml argv s rule: main_cases)
  case (config a cfg)
  then show ?thesis using launch_ends [OF assms, where ml = ml and cfg = cfg] by (auto split: if_splits)
qed auto

theorem main_panics_iff_witness:
  "fst (main mem_main [lit ''c.yaml''] mem_process) = Panicked (lit ''Bad sentry DSN'')
   \<and> fst (main mem_main [] mem_process) = Exited 2"
proof -
  have s: "pr_subscriber mem_process = None" by (simp add: mem_process_def)
  have "ml_parse_args mem_main [] = Inl 2" by (simp add: mem_main_def mem_parse_args_def)
  then have "fst (main mem_main [] mem_process) = Exited 2"
    using main_panics_iff [OF s, of mem_main "[]" _ 2] by simp
  moreover have "ml_parse_dsn mem_main d = None" for d by (simp add: mem_main_def)
  then have "fst (main mem_main [lit ''c.yaml''] mem_process) = Panicked (lit ''Bad sentry DSN'')"
    using main_panics_iff [OF s, of mem_main "[lit ''c.yaml'']"]
    by (simp add: mem_main_args mem_main_config mem_bad_dsn_def)
  ultimately show ?thesis by simp
qed

text \<open>
  What a fresh process that serves has behind it: no subcommand, a configuration read from the source
  the argument names, a bound listener on the configured address, an application state and a cache made
  from that configuration, logging with the Sentry layer exactly if the configuration has a Sentry
  section, and a Sentry client exactly then. Conversely, if all these can be made, it serves.
\<close>

lemma main_serves_iff:
  assumes "pr_subscriber s = None" and "pr_served s = None"
  shows "pr_served (snd (main ml argv s)) = Some (st, cache, listener)
      \<and> pr_subscriber (snd (main ml argv s)) = Some layers \<longleftrightarrow>
    (\<exists>a cfg addr. ml_parse_args ml argv = Inr a \<and> arg_command a = None
       \<and> main_config ml a (pr_files s) = Inr cfg
       \<and> (\<forall>sc. cfg_sentry cfg = Some sc \<longrightarrow> ml_parse_dsn ml (dsn sc) \<noteq> None)
       \<and> layers = log_layers ml (cfg_sentry cfg \<noteq> None) \<and> ml_runtime ml = Inr ()
       \<and> async_main (ml_auth ml) (ml_stores ml) (ml_foyer ml) cfg = Inr (st, cache, addr)
       \<and> ml_bind ml addr = Inr listener)"
proof (cases ml argv s rule: main_cases)
  case (config a cfg)
  show ?thesis
  proof (cases "init_sentry (ml_parse_dsn ml) (ml_release ml) cfg")
    case (Inl m')
    from Inl [unfolded init_sentry_panics] show ?thesis
      using assms config by (auto simp: launch_fresh [OF assms(1)] Inl)
  next
    case r: (Inr guard)
    have "\<forall>sc. cfg_sentry cfg = Some sc \<longrightarrow> ml_parse_dsn ml (dsn sc) \<noteq> None"
      using r init_sentry_panics [of "ml_parse_dsn ml" "ml_release ml" cfg "lit ''Bad sentry DSN''"] by auto
    with assms(2) config show ?thesis
      by (auto simp: launch_fresh [OF assms(1)] r Let_def serve_on_simps and_then_def
          split: sum.splits prod.splits)
  qed
qed (use assms in auto)

lemma mem_main_serves:
  "\<exists>st cache. pr_served (snd (main mem_main [lit ''env''] mem_process))
     = Some (st, cache, 0) \<and> fc_cache cache = Map.empty"
proof -
  have f: "pr_subscriber mem_process = None" "pr_served mem_process = None" by (simp_all add: mem_process_def)
  obtain st cache where s: "async_main mem_auth mem_store_builders mem_foyer_builders mem_config
      = Inr (st, cache, lit ''0.0.0.0:80'')" using mem_started by blast
  moreover from this have "fc_cache cache = Map.empty"
    by (auto simp: async_main_def foyer_new_def mem_config_def mem_foyer_builders_def)
  moreover have "cfg_sentry mem_config = None" by (simp add: mem_config_def)
  ultimately show ?thesis
    using main_serves_iff [OF f, of mem_main "[lit ''env'']" st cache 0
      "log_layers mem_main False"]
    by (simp add: mem_main_args mem_main_config) (auto simp: mem_main_def)
qed

lemma served_has_subscriber:
  assumes "pr_subscriber s = None" and "pr_served s = None" and "pr_served (snd (main ml argv s)) \<noteq> None"
  shows "\<exists>layers. pr_subscriber (snd (main ml argv s)) = Some layers"
  using assms(2,3)
  by (auto simp: main_def launch_fresh [OF assms(1)] Let_def serve_on_simps
      split: option.splits command.splits sum.splits prod.splits)

end
