(* ===== verification/Lease_Spec.thy ===== *)
theory Lease_Spec
  imports Inflight
begin

text \<open>
  The abstract specification of single flight. It knows no heap, no \<open>Arc\<close> and no guards: a key is
  either free or leased to one task, which may store a result and whose lease collects waiters; when
  the lease is settled, every waiter gets a message with the result, if there was one. Theory
  \<open>Lease_Refinement\<close> shows that the server refines it. The locale \<open>simulation\<close> is what such a
  refinement promises about whole runs.
\<close>

section \<open>Simulation\<close>

locale simulation =
  fixes inv :: "'c \<Rightarrow> bool"
    and cstep :: "'c \<Rightarrow> 'c \<Rightarrow> bool"
    and astep :: "'a \<Rightarrow> 'a \<Rightarrow> bool"
    and abs :: "'c \<Rightarrow> 'a"
  assumes inv_step: "inv s \<Longrightarrow> cstep s s' \<Longrightarrow> inv s'"
    and simulates: "inv s \<Longrightarrow> cstep s s' \<Longrightarrow> astep\<^sup>=\<^sup>= (abs s) (abs s')"
begin

lemma runs: "cstep\<^sup>*\<^sup>* s s' \<Longrightarrow> inv s \<Longrightarrow> inv s' \<and> astep\<^sup>*\<^sup>* (abs s) (abs s')"
proof (induction rule: rtranclp_induct)
  case (step s' s'')
  with simulates [of s' s''] inv_step show ?case
    by (auto intro: rtranclp.rtrancl_into_rtrancl)
qed simp

text \<open>What every abstract step keeps holds of the abstraction of every concrete run.\<close>

lemma transfer:
  assumes "\<And>a a'. astep a a' \<Longrightarrow> P a \<Longrightarrow> P a'" and "cstep\<^sup>*\<^sup>* s s'" and "inv s" and "P (abs s)"
  shows "P (abs s')"
proof -
  from runs [OF assms(2,3)] have "astep\<^sup>*\<^sup>* (abs s) (abs s')" ..
  then show ?thesis by (induction rule: rtranclp_induct) (auto intro: assms(1,4))
qed

end

section \<open>Leases\<close>

text \<open>
  \<open>ls_flight\<close> is the number of the flight, new for every lease. \<open>lv_inbox\<close> holds the messages: the
  flight, the waiter and what it is told.
\<close>

record 'r lease =
  ls_flight :: nat
  ls_owner :: tid
  ls_result :: "'r option"
  ls_waiters :: "tid set"

record 'r leases =
  lv_table :: "cache_key \<Rightarrow> 'r lease option"
  lv_inbox :: "(nat \<times> tid \<times> 'r option) set"
  lv_next :: nat

definition leases_init :: "'r leases" where
  "leases_init = \<lparr>lv_table = (\<lambda>_. None), lv_inbox = {}, lv_next = 0\<rparr>"

definition owns_none :: "tid \<Rightarrow> 'r leases \<Rightarrow> bool" where
  "owns_none t a \<longleftrightarrow> (\<forall>k l. lv_table a k = Some l \<longrightarrow> ls_owner l \<noteq> t)"

inductive lease_step :: "'r leases \<Rightarrow> 'r leases \<Rightarrow> bool" where
  lead: "lv_table a k = None \<Longrightarrow> owns_none t a \<Longrightarrow>
     lease_step a (a\<lparr>lv_table := (lv_table a)(k \<mapsto>
         \<lparr>ls_flight = lv_next a, ls_owner = t, ls_result = None, ls_waiters = {}\<rparr>),
       lv_next := Suc (lv_next a)\<rparr>)"
| store: "lv_table a k = Some l \<Longrightarrow>
     lease_step a (a\<lparr>lv_table := (lv_table a)(k \<mapsto> l\<lparr>ls_result := Some r\<rparr>)\<rparr>)"
| enlist: "lv_table a k = Some l \<Longrightarrow>
     lease_step a (a\<lparr>lv_table := (lv_table a)(k \<mapsto> l\<lparr>ls_waiters := insert u (ls_waiters l)\<rparr>)\<rparr>)"
| hand_over: "lv_table a k = Some l \<Longrightarrow> owns_none t a \<Longrightarrow>
     lease_step a (a\<lparr>lv_table := (lv_table a)(k \<mapsto> l\<lparr>ls_owner := t\<rparr>)\<rparr>)"
| settle: "lv_table a k = Some l \<Longrightarrow>
     lease_step a (a\<lparr>lv_table := (lv_table a)(k := None),
       lv_inbox := lv_inbox a \<union> (\<lambda>u. (ls_flight l, u, ls_result l)) ` ls_waiters l\<rparr>)"

inductive_cases lease_stepE: "lease_step a a'"

section \<open>What the specification guarantees\<close>

text \<open>
  No task owns two leases, no two keys share a flight, a flight with messages is over, and all its
  messages say the same.
\<close>

definition leases_ok :: "'r leases \<Rightarrow> bool" where
  "leases_ok a \<longleftrightarrow>
     (\<forall>k l. lv_table a k = Some l \<longrightarrow> ls_flight l < lv_next a)
   \<and> (\<forall>j k l m. lv_table a j = Some l \<longrightarrow> lv_table a k = Some m \<longrightarrow>
        ls_owner l = ls_owner m \<or> ls_flight l = ls_flight m \<longrightarrow> j = k)
   \<and> (\<forall>f u r. (f, u, r) \<in> lv_inbox a \<longrightarrow> f < lv_next a)
   \<and> (\<forall>k l u r. lv_table a k = Some l \<longrightarrow> (ls_flight l, u, r) \<notin> lv_inbox a)
   \<and> (\<forall>f u v r r'. (f, u, r) \<in> lv_inbox a \<longrightarrow> (f, v, r') \<in> lv_inbox a \<longrightarrow> r = r')"

lemma leases_ok_init: "leases_ok leases_init"
  by (simp add: leases_ok_def leases_init_def)

lemma leases_ok_step: "lease_step a a' \<Longrightarrow> leases_ok a \<Longrightarrow> leases_ok a'"
proof (induction rule: lease_step.induct)
  case (lead a k t)
  then show ?case
    unfolding leases_ok_def owns_none_def
    by (simp add: less_Suc_eq) (metis less_irrefl_nat)
next
  case (store a k l r)
  then show ?case unfolding leases_ok_def by simp metis
next
  case (enlist a k l u)
  then show ?case unfolding leases_ok_def by simp metis
next
  case (hand_over a k l t)
  then show ?case unfolding leases_ok_def owns_none_def by simp metis
next
  case (settle a k l)
  then show ?case unfolding leases_ok_def by (simp add: image_iff) metis
qed

text \<open>Messages are never withdrawn.\<close>

lemma inbox_mono: "lease_step a a' \<Longrightarrow> m \<in> lv_inbox a \<Longrightarrow> m \<in> lv_inbox a'"
  by (erule lease_stepE) auto

end
