(* ===== verification/Lease_Refinement.thy ===== *)
theory Lease_Refinement
  imports Lease_Spec Flight
begin

text \<open>
  The server refines the specification of theory \<open>Lease_Spec\<close>: the abstraction reads the lease of a
  key from the in-flight table and from the task that will release the entry, and every step of the
  server, whatever it does, is at most one abstract step.
\<close>

section \<open>The abstraction\<close>

text \<open>
  The task that will release a key: the one that leads it, or the spawned task of a dropped guard,
  which is about to. Ids below \<open>s_next\<close> are all there are.
\<close>

definition releasing :: "prog option \<Rightarrow> cache_key \<Rightarrow> bool" where
  "releasing p key \<longleftrightarrow> (case p of Some (Release k e c) \<Rightarrow> k = key | _ \<Rightarrow> False)"

definition lease_owner :: "('h, 'u) sys \<Rightarrow> cache_key \<Rightarrow> tid option" where
  "lease_owner s key = find (\<lambda>t. leading s t key \<or> releasing (s_tasks s t) key) [0..<s_next s]"

definition lease_view :: "(cache_key \<Rightarrow> tid option) \<Rightarrow> 'r inflight \<Rightarrow> 'r leases" where
  "lease_view owner i =
     \<lparr>lv_table = (\<lambda>key. case inner i key of
        None \<Rightarrow> None
      | Some e \<Rightarrow> map_option (\<lambda>t. \<lparr>ls_flight = e, ls_owner = t, ls_result = entry_result e i,
          ls_waiters = {u. entry_registered u e i}\<rparr>) (owner key)),
      lv_inbox = {(e, u, r). entry_woken u e i \<and> r = entry_result e i},
      lv_next = next_eid i\<rparr>"

definition abs_leases :: "('h, 'u) sys \<Rightarrow> inflight_result leases" where
  "abs_leases s = lease_view (lease_owner s) (w_inflight (s_world s))"

lemma abs_leases_init: "abs_leases (sys_init h u) = leases_init"
  by (auto simp: abs_leases_def lease_view_def leases_init_def inflight_new_def entry_woken_def)

section \<open>The owner of a lease is the owner of the guard state\<close>

lemma owner_token:
  assumes core: "flight_core G (s_tasks s) (w_held (s_world s)) (w_inflight (s_world s))"
  shows "leading s t key \<or> releasing (s_tasks s t) key \<longleftrightarrow> (\<exists>e. token (G t) = Some (key, e))"
proof
  assume "leading s t key \<or> releasing (s_tasks s t) key"
  then show "\<exists>e. token (G t) = Some (key, e)"
  proof
    assume "leading s t key"
    with core show ?thesis by (rule leading_token)
  next
    assume "releasing (s_tasks s t) key"
    then obtain e c where "s_tasks s t = Some (Release key e c)"
      by (auto simp: releasing_def split: option.splits prog.splits)
    from flight_coreD(3) [OF core this] show ?thesis by auto
  qed
next
  assume "\<exists>e. token (G t) = Some (key, e)"
  then obtain e where tok: "token (G t) = Some (key, e)" ..
  then obtain p where p: "s_tasks s t = Some p"
    using flight_coreD(2) [OF core, of t] by (cases "s_tasks s t") auto
  note d = flight_coreD(3) [OF core p] and h = flight_coreD(4) [OF core, of t]
  show "leading s t key \<or> releasing (s_tasks s t) key"
  proof (cases "G t")
    case (Owns k c)
    with d have "\<not> at_released (s_tasks s t)"
      unfolding p at_released_def by (cases p) auto
    with tok h Owns show ?thesis by (simp add: leading_def)
  next
    case (Orphan k c)
    with d have "releasing (s_tasks s t) k"
      unfolding p releasing_def by (cases p) auto
    with tok Orphan show ?thesis by simp
  qed (use tok in simp_all)
qed

lemma lease_owner_iff:
  assumes core: "flight_core G (s_tasks s) (w_held (s_world s)) (w_inflight (s_world s))"
    and ids: "ids_ok s"
  shows "lease_owner s key = Some t \<longleftrightarrow> (\<exists>e. token (G t) = Some (key, e))"
proof -
  have only: "u = t" if "token (G t) = Some (key, e)" "token (G u) = Some (key, d)" for t u d e
    using flight_coreD(5) [OF core that(1)] flight_coreD(5) [OF core that(2)]
      flight_coreD(6) [OF core, of t key e u] that by simp
  have live: "t < s_next s" if "token (G t) = Some (key, e)" for t e
  proof (rule ccontr)
    assume "\<not> t < s_next s"
    then have "s_tasks s t = None" using ids by (simp add: ids_ok_def)
    from flight_coreD(2) [OF core this] that show False by simp
  qed
  show ?thesis
    unfolding lease_owner_def owner_token [OF core]
    by (rule find_unique) (use live only in blast)+
qed

lemma lease_owner_None:
  assumes "flight_core G (s_tasks s) (w_held (s_world s)) (w_inflight (s_world s))" "ids_ok s"
  shows "lease_owner s key = None \<longleftrightarrow> inner (w_inflight (s_world s)) key = None"
proof -
  have "(\<exists>t e. token (G t) = Some (key, e)) \<longleftrightarrow> (\<exists>e. inner (w_inflight (s_world s)) key = Some e)"
    using flight_coreD(5,7) [OF assms(1)] by metis
  then show ?thesis using lease_owner_iff [OF assms, of key] by (metis not_None_eq)
qed

section \<open>What the operations of the table do to the view\<close>

text \<open>
  The entry of a key in the table has told nobody anything yet.
\<close>

definition quiet :: "'r inflight \<Rightarrow> bool" where
  "quiet i \<longleftrightarrow> (\<forall>k e u. inner i k = Some e \<longrightarrow> \<not> entry_woken u e i)"

lemma quiet_new: "quiet inflight_new"
  by (simp add: quiet_def inflight_new_def)

lemma view_acquire:
  assumes "inflight_wf i" and "inner i key = None"
  shows "lease_view (owner(key \<mapsto> t)) (snd (acquire key i)) =
    (lease_view owner i)\<lparr>lv_table := (lv_table (lease_view owner i))(key \<mapsto>
        \<lparr>ls_flight = next_eid i, ls_owner = t, ls_result = None, ls_waiters = {}\<rparr>),
      lv_next := Suc (next_eid i)\<rparr>"
proof -
  have h: "heap i (next_eid i) = None" using assms(1) by (auto simp: inflight_wf_def)
  have i: "inner (snd (acquire key i)) = (inner i)(key \<mapsto> next_eid i)"
    "next_eid (snd (acquire key i)) = Suc (next_eid i)"
    using assms(2) by (simp_all add: acquire_def Let_def)
  show ?thesis
    unfolding lease_view_def i entry_sel_acquire [OF assms(1)]
    using h by (auto simp: fun_eq_iff entry_registered_def entry_result_def split: option.split)
qed

lemma view_set_result:
  assumes "inflight_wf i" and "quiet i" and "inner i key = Some e" and "owner key = Some t"
    and "lv_table (lease_view owner i) key = Some l"
  shows "lease_view owner (set_result e r i) =
    (lease_view owner i)\<lparr>lv_table :=
      (lv_table (lease_view owner i))(key \<mapsto> l\<lparr>ls_result := Some r\<rparr>)\<rparr>"
proof -
  have h: "heap i e \<noteq> None" using assms(1,3) by (auto simp: inflight_wf_def)
  have q: "\<not> entry_woken u e i" for u using assms(2,3) by (simp add: quiet_def)
  have o: "d \<noteq> e" if "inner i j = Some d" "j \<noteq> key" for j d
    using that assms(1,3) unfolding inflight_wf_def by metis
  show ?thesis
    using assms(3-5) h q o
    by (auto simp: lease_view_def fun_eq_iff split: option.splits)
qed

lemma view_notified:
  assumes "inflight_wf i" and "inner i key = Some e" and "lv_table (lease_view owner i) key = Some l"
  shows "lease_view owner (entry_notified u e i) =
    (lease_view owner i)\<lparr>lv_table :=
      (lv_table (lease_view owner i))(key \<mapsto> l\<lparr>ls_waiters := insert u (ls_waiters l)\<rparr>)\<rparr>"
proof -
  have h: "heap i e \<noteq> None" using assms(1,2) by (auto simp: inflight_wf_def)
  have o: "d \<noteq> e" if "inner i j = Some d" "j \<noteq> key" for j d
    using that assms(1,2) unfolding inflight_wf_def by metis
  show ?thesis
    using assms(2,3) h o
    by (auto simp: lease_view_def entry_registered_notified fun_eq_iff split: option.splits)
qed

lemma view_notified_late:
  assumes "\<And>key. inner i key \<noteq> Some e"
  shows "lease_view owner (entry_notified u e i) = lease_view owner i"
proof -
  have "d \<noteq> e" if "inner i j = Some d" for j d using that assms by auto
  then show ?thesis
    by (auto simp: lease_view_def entry_registered_notified fun_eq_iff split: option.split)
qed

lemma view_release:
  assumes "inflight_wf i" and "inner i key = Some e" and "lv_table (lease_view owner i) key = Some l"
  shows "lease_view (owner(key := None)) (release key e i) =
    (lease_view owner i)\<lparr>lv_table := (lv_table (lease_view owner i))(key := None),
      lv_inbox := lv_inbox (lease_view owner i) \<union> (\<lambda>u. (ls_flight l, u, ls_result l)) ` ls_waiters l\<rparr>"
proof -
  have o: "d \<noteq> e" if "inner i j = Some d" "j \<noteq> key" for j d
    using that assms(1,2) unfolding inflight_wf_def by metis
  have i: "inner (release key e i) = (inner i)(key := None)"
    using assms(2) by (simp add: inner_release)
  show ?thesis
    unfolding lease_view_def i entry_sel_release [OF assms(2)]
    using assms(2,3) o
    by (auto simp: lease_view_def fun_eq_iff split: option.splits)
qed

section \<open>The entries of the table are quiet\<close>

lemma quiet_exec_op:
  assumes "exec_op x t p w = Some (p', q, w')" and "inflight_wf (w_inflight w)" and "quiet (w_inflight w)"
  shows "quiet (w_inflight w')"
proof -
  let ?i = "w_inflight w"
  have "quiet (snd (acquire k ?i))" for k
  proof -
    have "\<not> entry_woken u (next_eid ?i) ?i" for u
      using assms(2) by (auto simp: inflight_wf_def entry_woken_def split: option.split)
    moreover have "inner (snd (acquire k ?i)) j = Some e \<Longrightarrow> inner ?i j = Some e \<or> e = next_eid ?i" for j e
      by (auto simp: acquire_def Let_def split: option.splits if_splits)
    ultimately show ?thesis
      using assms(3) unfolding quiet_def entry_sel_acquire [OF assms(2)] by blast
  qed
  moreover have "quiet (set_result d r ?i)" "quiet (entry_notified v d ?i)" for d r v
    using assms(3) by (simp_all add: quiet_def)
  moreover have "quiet (release k d ?i)" for k d
  proof (cases "inner ?i k = Some d")
    case True
    have "e \<noteq> d \<and> inner ?i j = Some e" if e: "inner (release k d ?i) j = Some e" for j e
    proof -
      have i: "inner (release k d ?i) = (inner ?i)(k := None)" using True by (simp add: inner_release)
      from e have j: "j \<noteq> k" "inner ?i j = Some e" unfolding i by (auto split: if_splits)
      moreover have "e \<noteq> d" using j True assms(2) unfolding inflight_wf_def by blast
      ultimately show ?thesis by simp
    qed
    with assms(3) show ?thesis
      unfolding quiet_def entry_sel_release [OF True] by blast
  next
    case False
    with fl.rel_other [OF assms(2)] assms(3) show ?thesis by simp
  qed
  ultimately show ?thesis using exec_op_inflight [OF assms(1)] assms(3) by auto
qed

lemma quiet_step:
  assumes "sstep x res serve s s'" and "inflight_wf (w_inflight (s_world s))"
    and "quiet (w_inflight (s_world s))"
  shows "quiet (w_inflight (s_world s'))"
  using assms(1)
proof (cases rule: sstep.cases)
  case (operate t p p' q w')
  with quiet_exec_op [OF operate(3) assms(2,3)] show ?thesis by simp
qed (use assms(3) in \<open>simp_all add: drop_task_def Let_def\<close>)

text \<open>What the simulation rests on.\<close>

definition lease_inv :: "('h, 'u) sys \<Rightarrow> bool" where
  "lease_inv s \<longleftrightarrow> flight_inv s \<and> ids_ok s \<and> quiet (w_inflight (s_world s))"

lemma lease_inv_reachable:
  assumes "reachable x res serve h0 u0 s" and "\<And>rq p. serve rq = Some p \<Longrightarrow> disc p Idle"
  shows "lease_inv s"
  using assms(1)
proof (induction rule: reachable.induct)
  case start
  show ?case by (simp add: lease_inv_def flight_inv_init ids_ok_init quiet_new)
next
  case (step s s')
  from step.IH obtain G where
    core: "flight_core G (s_tasks s) (w_held (s_world s)) (w_inflight (s_world s))"
    unfolding lease_inv_def by (blast elim: flight_invE)
  with step flight_inv_step [OF step.hyps(2) _ _ assms(2)] show ?case
    by (auto simp: lease_inv_def intro: ids_ok_step quiet_step flight_coreD(1))
qed

section \<open>How the owners move\<close>

text \<open>
  The guard states after a step differ at one task only, so the table before and after decides who
  owns what.
\<close>

lemma owners_kept:
  assumes core: "flight_core G T H i" and core': "flight_core (G(t := g)) T' H' i'"
    and "inner i' = inner i"
  shows "token g = token (G t)"
proof -
  have "token g = Some (k, e) \<longleftrightarrow> token (G t) = Some (k, e)" for k e
  proof
    assume g: "token g = Some (k, e)"
    then have "inner i k = Some e" using flight_coreD(5) [OF core', of t k e] assms(3) by simp
    from flight_coreD(7) [OF core this] obtain u where u: "token (G u) = Some (k, e)" ..
    then have "u = t" using g flight_coreD(6) [OF core', of u k e t] by (cases "u = t") auto
    with u show "token (G t) = Some (k, e)" by simp
  next
    assume G: "token (G t) = Some (k, e)"
    then have "inner i' k = Some e" using flight_coreD(5) [OF core, of t k e] assms(3) by simp
    from flight_coreD(7) [OF core' this] obtain u where u: "token ((G(t := g)) u) = Some (k, e)" ..
    then have "u = t" using G flight_coreD(6) [OF core, of u k e t] by (cases "u = t") auto
    with u show "token g = Some (k, e)" by simp
  qed
  then show ?thesis by (metis not_None_eq surj_pair)
qed

lemma owners_lead:
  assumes core: "flight_core G T H i" and core': "flight_core (G(t := g)) T' H' i'"
    and "inner i k = None" and "inner i' = (inner i)(k \<mapsto> e)"
  shows "token g = Some (k, e)"
proof -
  from flight_coreD(7) [OF core', of k e] assms(4) obtain u where
    u: "token ((G(t := g)) u) = Some (k, e)" by auto
  have "u = t"
  proof (rule ccontr)
    assume "u \<noteq> t"
    with u flight_coreD(5) [OF core, of u k e] assms(3) show False by simp
  qed
  with u show ?thesis by simp
qed

lemma owners_release:
  assumes core: "flight_core G T H i" and core': "flight_core (G(t := g)) T' H' i'"
    and "token (G t) = Some (k, e)" and "inner i' = (inner i)(k := None)"
  shows "token g = None"
proof (rule ccontr)
  assume "token g \<noteq> None"
  then obtain j c where g: "token g = Some (j, c)" by auto
  with flight_coreD(5) [OF core', of t j c] assms(4) have j: "j \<noteq> k" "inner i j = Some c"
    by (auto split: if_splits)
  from flight_coreD(7) [OF core j(2)] obtain u where u: "token (G u) = Some (j, c)" ..
  with assms(3) j(1) have "u \<noteq> t" by auto
  with u g flight_coreD(6) [OF core', of u j c t] show False by simp
qed

section \<open>Every step of the server is at most one step of the specification\<close>

lemma idle_op_inflight:
  assumes "exec_op x t p w = Some (p', q, w')"
    and "\<And>key k. p \<noteq> Acquire key k" "\<And>e r k. p \<noteq> SetResult e r k"
      "\<And>key e k. p \<noteq> Release key e k" "\<And>e k. p \<noteq> Notified e k"
  shows "w_inflight w' = w_inflight w"
  using assms by (cases p) (auto simp: ask_def split: prod.splits option.splits if_splits)

lemma view_leased:
  assumes "inner i key = Some e" and "owner key = Some t"
  shows "lv_table (lease_view owner i) key = Some \<lparr>ls_flight = e, ls_owner = t,
    ls_result = entry_result e i, ls_waiters = {u. entry_registered u e i}\<rparr>"
  using assms by (simp add: lease_view_def)

lemma view_free: "inner i key = None \<Longrightarrow> lv_table (lease_view owner i) key = None"
  by (simp add: lease_view_def)

lemma owns_none_token:
  assumes "flight_core G (s_tasks s) (w_held (s_world s)) (w_inflight (s_world s))"
    and "ids_ok s" and "token (G t) = None"
  shows "owns_none t (abs_leases s)"
  using lease_owner_iff [OF assms(1,2)] assms(3)
  by (auto simp: owns_none_def abs_leases_def lease_view_def split: option.splits)

lemma lease_owner_eq:
  assumes "flight_core G (s_tasks s) (w_held (s_world s)) (w_inflight (s_world s))" and "ids_ok s"
    and "\<And>k u. f k = Some u \<longleftrightarrow> (\<exists>e. token (G u) = Some (k, e))"
  shows "lease_owner s = f"
  by (rule map_eqI) (simp add: lease_owner_iff [OF assms(1,2)] assms(3))

lemma lease_owner_kept:
  assumes core: "flight_core G (s_tasks s) (w_held (s_world s)) (w_inflight (s_world s))" and ids: "ids_ok s"
    and core': "flight_core (G(t := g)) (s_tasks s') (w_held (s_world s')) (w_inflight (s_world s'))"
    and ids': "ids_ok s'" and "inner (w_inflight (s_world s')) = inner (w_inflight (s_world s))"
  shows "lease_owner s' = lease_owner s"
  using owners_kept [OF core core' assms(5)] lease_owner_iff [OF core ids]
  by (intro lease_owner_eq [OF core' ids']) auto

lemma lease_owner_led:
  assumes core: "flight_core G (s_tasks s) (w_held (s_world s)) (w_inflight (s_world s))" and ids: "ids_ok s"
    and core': "flight_core (G(t := g)) (s_tasks s') (w_held (s_world s')) (w_inflight (s_world s'))"
    and ids': "ids_ok s'" and free: "inner (w_inflight (s_world s)) key = None" and idle: "token (G t) = None"
    and "inner (w_inflight (s_world s')) = (inner (w_inflight (s_world s)))(key \<mapsto> e)"
  shows "lease_owner s' = (lease_owner s)(key \<mapsto> t)"
proof (rule lease_owner_eq [OF core' ids'])
  fix k u
  have "token (G v) \<noteq> Some (key, d)" for v d
    using flight_coreD(5) [OF core, of v key d] free by auto
  then show "((lease_owner s)(key \<mapsto> t)) k = Some u \<longleftrightarrow> (\<exists>e. token ((G(t := g)) u) = Some (k, e))"
    using owners_lead [OF core core' free assms(7)] idle lease_owner_iff [OF core ids, of k u] by auto
qed

lemma lease_owner_freed:
  assumes core: "flight_core G (s_tasks s) (w_held (s_world s)) (w_inflight (s_world s))" and ids: "ids_ok s"
    and core': "flight_core (G(t := g)) (s_tasks s') (w_held (s_world s')) (w_inflight (s_world s'))"
    and ids': "ids_ok s'" and tok: "token (G t) = Some (key, e)"
    and "inner (w_inflight (s_world s')) = (inner (w_inflight (s_world s)))(key := None)"
  shows "lease_owner s' = (lease_owner s)(key := None)"
proof (rule lease_owner_eq [OF core' ids'])
  fix k u
  have "token (G v) \<noteq> Some (key, d)" if "v \<noteq> t" for v d
    using that tok lease_owner_iff [OF core ids, of key v] lease_owner_iff [OF core ids, of key t] by auto
  then show "((lease_owner s)(key := None)) k = Some u \<longleftrightarrow> (\<exists>e. token ((G(t := g)) u) = Some (k, e))"
    using owners_release [OF core core' tok assms(6)] tok lease_owner_iff [OF core ids, of k u] by auto
qed

text \<open>The abstract step of each operation of the table.\<close>

lemma refines_lead:
  assumes "inflight_wf i" and "inner i key = None" and "owns_none t (lease_view owner i)"
  shows "lease_step (lease_view owner i) (lease_view (owner(key \<mapsto> t)) (snd (acquire key i)))"
  using lease_step.lead [OF view_free [OF assms(2)] assms(3)]
  unfolding view_acquire [OF assms(1,2)] by (simp add: lease_view_def)

lemma refines_store:
  assumes "inflight_wf i" "quiet i" "inner i key = Some e" "owner key = Some u"
  shows "lease_step (lease_view owner i) (lease_view owner (set_result e r i))"
  unfolding view_set_result [OF assms view_leased [where owner = owner, OF assms(3,4)]]
  by (rule lease_step.store) (rule view_leased [where owner = owner, OF assms(3,4)])

lemma refines_enlist:
  assumes "inflight_wf i" and "\<And>key. inner i key = Some e \<Longrightarrow> owner key \<noteq> None"
  shows "lease_step\<^sup>=\<^sup>= (lease_view owner i) (lease_view owner (entry_notified t e i))"
proof (cases "\<exists>key. inner i key = Some e")
  case True
  then obtain key u where e: "inner i key = Some e" "owner key = Some u" using assms(2) by blast
  note l = view_leased [where owner = owner, OF e]
  from lease_step.enlist [OF l, of t] show ?thesis
    unfolding view_notified [OF assms(1) e(1) l] by simp
next
  case False
  then show ?thesis by (simp add: view_notified_late)
qed

lemma refines_settle:
  assumes "inflight_wf i" "inner i key = Some e" "owner key = Some t"
  shows "lease_step (lease_view owner i) (lease_view (owner(key := None)) (release key e i))"
proof -
  note l = view_leased [where owner = owner, OF assms(2,3)]
  from lease_step.settle [OF l] show ?thesis
    unfolding view_release [OF assms(1,2) l] by simp
qed

lemma refines_hand_over:
  assumes "inner i key = Some e" "owner key = Some t" "owns_none n (lease_view owner i)"
  shows "lease_step (lease_view owner i) (lease_view (owner(key \<mapsto> n)) i)"
proof -
  note l = view_leased [where owner = owner, OF assms(1,2)]
  have "lease_view (owner(key \<mapsto> n)) i = (lease_view owner i)\<lparr>lv_table :=
      (lv_table (lease_view owner i))(key \<mapsto> \<lparr>ls_flight = e, ls_owner = n,
        ls_result = entry_result e i, ls_waiters = {u. entry_registered u e i}\<rparr>)\<rparr>"
    using assms(1) by (auto simp: lease_view_def fun_eq_iff split: option.split)
  with lease_step.hand_over [OF l assms(3)] show ?thesis by simp
qed

lemma abs_leases_operate:
  assumes core: "flight_core G (s_tasks s) (w_held (s_world s)) (w_inflight (s_world s))"
    and ids: "ids_ok s" and quiet: "quiet (w_inflight (s_world s))"
    and t: "s_tasks s t = Some p" and op: "exec_op x t p (s_world s) = Some (p', q, w')"
    and core': "flight_core (G(t := g)) (s_tasks s') (w_held (s_world s')) (w_inflight (s_world s'))"
    and ids': "ids_ok s'" and w': "s_world s' = w'"
  shows "lease_step\<^sup>=\<^sup>= (abs_leases s) (abs_leases s')"
proof -
  let ?i = "w_inflight (s_world s)"
  note wf = flight_coreD(1) [OF core] and d = flight_coreD(3) [OF core t]
  note kept = lease_owner_kept [OF core ids core' ids', unfolded w']
  have leased: "inner ?i k = Some e \<Longrightarrow> lease_owner s k \<noteq> None" for k e
    using lease_owner_None [OF core ids, of k] by simp
  show ?thesis
  proof (cases p)
    case (Acquire key k)
    show ?thesis
    proof (cases "inner ?i key")
      case None
      from d Acquire have idle: "token (G t) = None" by simp
      from Acquire op None have i': "w_inflight w' = snd (acquire key ?i)" by (auto simp: acquire_def Let_def)
      then have "lease_owner s' = (lease_owner s)(key \<mapsto> t)"
        using None by (intro lease_owner_led [OF core ids core' ids' None idle])
          (simp add: w' acquire_def Let_def)
      with refines_lead [OF wf None] owns_none_token [OF core ids idle] i' w' show ?thesis
        by (simp add: abs_leases_def)
    next
      case (Some e)
      with Acquire op have "w_inflight w' = ?i" by (auto simp: acquire_def)
      with kept w' show ?thesis by (simp add: abs_leases_def)
    qed
  next
    case (SetResult e r k)
    have i': "w_inflight w' = set_result e r ?i" using SetResult op by auto
    from d SetResult obtain key where G: "G t = Owns key e" by auto
    then have e: "inner ?i key = Some e" using flight_coreD(5) [OF core, of t key e] by simp
    from leased [OF this] obtain u where "lease_owner s key = Some u" by auto
    from refines_store [where owner = "lease_owner s", OF wf quiet e this] kept show ?thesis
      by (simp add: abs_leases_def w' i')
  next
    case (Release key e k)
    from d Release have G: "token (G t) = Some (key, e)" by auto
    then have e: "inner ?i key = Some e" using flight_coreD(5) [OF core] by simp
    from Release op have i': "w_inflight w' = release key e ?i" by auto
    then have "lease_owner s' = (lease_owner s)(key := None)"
      using e by (intro lease_owner_freed [OF core ids core' ids' G]) (simp add: w' inner_release)
    moreover have "lease_owner s key = Some t" using lease_owner_iff [OF core ids] G by blast
    ultimately show ?thesis
      using refines_settle [OF wf e] by (simp add: abs_leases_def w' i')
  next
    case (Notified e k)
    with op have i': "w_inflight w' = entry_notified t e ?i" by auto
    with refines_enlist [OF wf leased] kept w' show ?thesis by (simp add: abs_leases_def)
  qed (use kept w' idle_op_inflight [OF op] in \<open>simp_all add: abs_leases_def\<close>)
qed

lemma abs_leases_same:
  assumes core: "flight_core G (s_tasks s) (w_held (s_world s)) (w_inflight (s_world s))" and ids: "ids_ok s"
    and core': "flight_core G (s_tasks s') (w_held (s_world s')) (w_inflight (s_world s'))" and ids': "ids_ok s'"
    and "w_inflight (s_world s') = w_inflight (s_world s)"
  shows "abs_leases s' = abs_leases s"
  using lease_owner_kept [OF core ids _ ids', of undefined "G undefined"] core' assms(5)
  by (simp add: abs_leases_def)

lemma abs_leases_step:
  assumes step: "sstep x res serve s s'" and inv: "lease_inv s"
    and serve: "\<And>rq p. serve rq = Some p \<Longrightarrow> disc p Idle"
  shows "lease_step\<^sup>=\<^sup>= (abs_leases s) (abs_leases s')"
proof -
  from inv have fl: "flight_inv s" and ids: "ids_ok s" and quiet: "quiet (w_inflight (s_world s))"
    by (simp_all add: lease_inv_def)
  from fl obtain G where
    core: "flight_core G (s_tasks s) (w_held (s_world s)) (w_inflight (s_world s))"
    and det: "\<And>t k e. G t = Orphan k e \<Longrightarrow> s_detached s t" by (rule flight_invE) blast
  have ids': "ids_ok s'" using step ids by (rule ids_ok_step)
  note same = abs_leases_same [OF core ids _ ids']
  from step show ?thesis
  proof (cases rule: sstep.cases)
    case (arrive rq p)
    have free: "s_tasks s (s_next s) = None" using ids by (simp add: ids_ok_def)
    have "abs_leases s' = abs_leases s"
      by (rule same) (use core_new [OF core free serve [OF arrive(2)]] arrive(1) in simp_all)
    then show ?thesis by simp
  next
    case (operate t p p' q w')
    obtain g where "flight_core (G(t := g)) (s_tasks s') (w_held (s_world s')) (w_inflight (s_world s'))"
      by (rule operate_sys [OF core det operate(2,3) ids operate(1)])
    from abs_leases_operate [OF core ids quiet operate(2,3) this ids'] operate(1) show ?thesis by simp
  next
    case (finish t r)
    from flight_coreD(3) [OF core finish(2)] have "G t = Idle" by simp
    from core_end [OF core this] finish(1) same show ?thesis by simp
  next
    case (disconnect t p)
    show ?thesis
    proof (rule disconnect_cases [OF core det disconnect(2-4) ids])
      assume "flight_core G (s_tasks (drop_task t s)) (w_held (s_world (drop_task t s)))
        (w_inflight (s_world (drop_task t s)))"
      with same disconnect(1) show ?thesis by simp
    next
      fix k e
      let ?G = "G(t := Idle, s_next s := Orphan k e)"
      assume Owns: "G t = Owns k e" and new: "t \<noteq> s_next s" "G (s_next s) = Idle"
        and "flight_core ?G (s_tasks (drop_task t s)) (w_held (s_world (drop_task t s)))
          (w_inflight (s_world (drop_task t s)))"
      then have core': "flight_core ?G (s_tasks s') (w_held (s_world s')) (w_inflight (s_world s'))"
        using disconnect(1) by simp
      have "lease_owner s' = (lease_owner s)(k \<mapsto> s_next s)"
      proof (rule lease_owner_eq [OF core' ids'])
        fix j u
        have "token (G v) \<noteq> Some (k, d)" if "v \<noteq> t" for v d
          using that Owns lease_owner_iff [OF core ids, of k v] lease_owner_iff [OF core ids, of k t] by auto
        then show "((lease_owner s)(k \<mapsto> s_next s)) j = Some u \<longleftrightarrow> (\<exists>c. token (?G u) = Some (j, c))"
          using Owns new lease_owner_iff [OF core ids, of j u] by auto
      qed
      moreover have e: "inner (w_inflight (s_world s)) k = Some e" "lease_owner s k = Some t"
        using flight_coreD(5) [OF core, of t k e] lease_owner_iff [OF core ids, of k t] Owns by auto
      moreover have "owns_none (s_next s) (lease_view (lease_owner s) (w_inflight (s_world s)))"
        using owns_none_token [OF core ids, of "s_next s"] new by (simp add: abs_leases_def)
      from refines_hand_over [where owner = "lease_owner s", OF e this] have
        "lease_step (abs_leases s) (lease_view ((lease_owner s)(k \<mapsto> s_next s)) (w_inflight (s_world s)))"
        by (simp add: abs_leases_def)
      ultimately show ?thesis using disconnect(1) by (simp add: abs_leases_def)
    qed
  next
    case (outside h u)
    with same core show ?thesis by simp
  qed
qed

section \<open>The server\<close>

interpretation server_leases: simulation
  "reachable x res (run_server l a enc utf st) h0 u0" "sstep x res (run_server l a enc utf st)"
  lease_step abs_leases
  for x :: "('h, 'u) externals" and res l a enc utf st h0 u0
proof unfold_locales
  fix s s'
  assume r: "reachable x res (run_server l a enc utf st) h0 u0 s"
    and st: "sstep x res (run_server l a enc utf st) s s'"
  from r st show "reachable x res (run_server l a enc utf st) h0 u0 s'" by (rule reachable.step)
  have "lease_inv s" using r by (rule lease_inv_reachable) (rule disc_run_server)
  with st show "lease_step\<^sup>=\<^sup>= (abs_leases s) (abs_leases s')"
    by (rule abs_leases_step) (rule disc_run_server)
qed

lemma abs_leases_ok:
  assumes "reachable x res (run_server l a enc utf st) h0 u0 s"
  shows "leases_ok (abs_leases s)"
  using assms
proof (induction rule: reachable.induct)
  case start
  show ?case by (simp add: abs_leases_init leases_ok_init)
next
  case (step s s')
  with server_leases.simulates [OF step.hyps] show ?case by (auto intro: leases_ok_step)
qed

text \<open>
  C8: the server refines the lease specification. It starts with no lease, and whatever a step of
  the server does (a request arrives, a task runs one operation, a client disconnects and its guard
  is dropped, the cache evicts), the leases either stay as they are or make one step that the
  specification allows: a free key is led by a task that owns nothing, a result is stored, a waiter
  enlists, a lease changes hands, or a lease ends and exactly its waiters are told its result.
\<close>

theorem leases_refined:
  assumes "reachable x res (run_server l a enc utf st) h0 u0 s"
    and "sstep x res (run_server l a enc utf st) s s'"
  shows "abs_leases (sys_init h0 u0) = leases_init
    \<and> lease_step\<^sup>=\<^sup>= (abs_leases s) (abs_leases s') \<and> leases_ok (abs_leases s')"
  by (intro conjI abs_leases_init server_leases.simulates [OF assms]
    abs_leases_ok [OF reachable.step [OF assms]])

theorem leases_refined_witness:
  "\<exists>s s' :: (mem_cache, mem_store) sys.
     sstep mem_externals mem_resident mem_serve s s' \<and> lv_table (abs_leases s) mem_key \<noteq> None
     \<and> lease_step\<^sup>=\<^sup>= (abs_leases s) (abs_leases s')"
proof -
  obtain s where s: "reachable mem_externals mem_resident mem_serve Map.empty (mem_store_new mem_objects) s"
    "inner (w_inflight (s_world s)) mem_key = Some 0" using mem_leading by blast
  have "sstep mem_externals mem_resident mem_serve s
      (s\<lparr>s_world := (s_world s)\<lparr>w_cache := (w_cache (s_world s))\<lparr>fc_cache := Map.empty\<rparr>, w_up := undefined\<rparr>\<rparr>)"
    by (rule sstep.outside) (simp add: mem_resident_def)
  moreover from this have "lease_step\<^sup>=\<^sup>= (abs_leases s)
      (abs_leases (s\<lparr>s_world := (s_world s)\<lparr>w_cache := (w_cache (s_world s))\<lparr>fc_cache := Map.empty\<rparr>, w_up := undefined\<rparr>\<rparr>))"
    using leases_refined [OF s(1) [unfolded mem_serve_def]] unfolding mem_serve_def by blast
  moreover have "lv_table (abs_leases s) mem_key \<noteq> None"
  proof -
    have "lease_inv s" using s(1) unfolding mem_serve_def by (rule lease_inv_reachable) (rule disc_run_server)
    then have "lease_owner s mem_key \<noteq> None"
      using lease_owner_None s(2) unfolding lease_inv_def by (metis flight_invE option.distinct(1))
    with s(2) show ?thesis by (simp add: abs_leases_def lease_view_def)
  qed
  ultimately show ?thesis by blast
qed

text \<open>
  C11: all followers of a flight are told the same, whenever they come to read it: once one of them
  has been woken, the result of the entry is final, and a follower woken in any later state reads
  the very same result (or, like the first, that there is none).
\<close>

theorem followers_agree:
  assumes "reachable x res (run_server l a enc utf st) h0 u0 s"
    and "ssteps x res (run_server l a enc utf st) s s'"
    and "entry_woken u e (w_inflight (s_world s))" and "entry_woken v e (w_inflight (s_world s'))"
  shows "entry_result e (w_inflight (s_world s')) = entry_result e (w_inflight (s_world s))
    \<and> entry_woken u e (w_inflight (s_world s'))"
proof -
  let ?m = "(e, u, entry_result e (w_inflight (s_world s)))"
  have m: "?m \<in> lv_inbox (abs_leases s)" using assms(3) by (simp add: abs_leases_def lease_view_def)
  have "?m \<in> lv_inbox (abs_leases s')"
    by (rule server_leases.transfer [where P = "\<lambda>a. ?m \<in> lv_inbox a", OF _ assms(2,1) m])
      (rule inbox_mono)
  then show ?thesis by (simp add: abs_leases_def lease_view_def)
qed

theorem followers_agree_witness:
  "\<exists>s :: (mem_cache, mem_store) sys. entry_woken 1 0 (w_inflight (s_world s))
     \<and> (\<forall>s' v. ssteps mem_externals mem_resident mem_serve s s' \<and> entry_woken v 0 (w_inflight (s_world s'))
          \<longrightarrow> entry_result 0 (w_inflight (s_world s')) = entry_result 0 (w_inflight (s_world s)))"
proof -
  obtain s0 where s0: "reachable mem_externals mem_resident mem_serve Map.empty (mem_store_new mem_objects) s0"
    "inner (w_inflight (s_world s0)) mem_key = Some 0" "entry_registered 1 0 (w_inflight (s_world s0))"
    using mem_registered by blast
  obtain s where s: "ssteps mem_externals mem_resident mem_serve s0 s" "entry_woken 1 0 (w_inflight (s_world s))"
    using server_entry_released [OF s0(1) [unfolded mem_serve_def] s0(2)] s0(3)
    unfolding mem_serve_def by blast
  have "reachable mem_externals mem_resident mem_serve Map.empty (mem_store_new mem_objects) s"
    by (rule reachable_steps [OF s(1) s0(1)])
  from followers_agree [OF this [unfolded mem_serve_def]] s(2) show ?thesis
    unfolding mem_serve_def by blast
qed

end
