(* ===== verification/Typing.thy ===== *)
theory Typing
  imports Head_Requests
begin

text \<open>
  Programs are typed: what kind of metric call they make, what kind of result they hand to followers
  and what kind of answer they end with. The locale \<open>task_type\<close> says when such a typing is kept by
  every step of the system; \<open>well_typed\<close> is the typing of the server's programs.
\<close>

section \<open>Typings of programs\<close>

lemma exec_op_results:
  assumes "exec_op x t p w = Some (p', q, w')" "entry_result e (w_inflight w') = Some r"
  shows "entry_result e (w_inflight w) = Some r \<or> (\<exists>k. p = SetResult e r k)"
  using assms by (cases p)
    (auto simp: ask_def split: prod.splits permit.splits option.splits if_splits,
      (metis entry_result_acquire snd_conv)+)

lemma exec_op_events:
  assumes "exec_op x t p w = Some (p', q, w')" "ev \<in> set (w_metrics w')"
  shows "ev \<in> set (w_metrics w) \<or> p = Emit ev p'"
  using assms by (cases p)
    (auto simp: ask_def split: prod.splits permit.splits option.splits if_splits)

text \<open>
  \<open>ty c p\<close> types the program of a task started for the request \<open>c\<close> (\<open>None\<close>: a spawned task). The
  table's results are typed by \<open>stores\<close>, so only such results have to be expected when one is read;
  all other answers of the outside are arbitrary.
\<close>

locale task_type =
  fixes ty :: "request option \<Rightarrow> prog \<Rightarrow> bool"
    and emits :: "metric_event \<Rightarrow> bool"
    and stores :: "inflight_result \<Rightarrow> bool"
  assumes ty_sub: "ty c p \<Longrightarrow> sub_prog p' p \<Longrightarrow> (\<And>e k. p \<noteq> ReadResult e k) \<Longrightarrow> ty c p'"
    and ty_read: "ty c (ReadResult e k) \<Longrightarrow> (\<And>v. r = Some v \<Longrightarrow> stores v) \<Longrightarrow> ty c (k r)"
    and ty_set: "ty c (SetResult e v p) \<Longrightarrow> stores v"
    and ty_emit: "ty c (Emit ev p) \<Longrightarrow> emits ev"
    and ty_spawn: "ty c (Spawn q p) \<Longrightarrow> ty None q"
    and ty_release: "ty None (release_task key e)"
begin

definition world_typed :: "('h, 'u) world \<Rightarrow> bool" where
  "world_typed w \<longleftrightarrow> (\<forall>ev \<in> set (w_metrics w). emits ev)
     \<and> (\<forall>e r. entry_result e (w_inflight w) = Some r \<longrightarrow> stores r)"

definition sys_typed :: "('h, 'u) sys \<Rightarrow> bool" where
  "sys_typed s \<longleftrightarrow> world_typed (s_world s)
     \<and> (\<forall>t p. s_tasks s t = Some p \<longrightarrow> ty (s_request s t) p)"

lemma typed_drop_guard: "drop_guard g = Some q \<Longrightarrow> ty None q"
  by (auto simp: drop_guard_def ty_release)

lemma typed_exec_op:
  assumes op: "exec_op x t p w = Some (p', q, w')" and p: "ty c p" and w: "world_typed w"
  shows "ty c p' \<and> world_typed w' \<and> (\<forall>a. q = Some a \<longrightarrow> ty None a)"
proof -
  have "ty c p'"
  proof (cases "\<exists>e k. p = ReadResult e k")
    case True
    then obtain e k where r: "p = ReadResult e k" by blast
    with op have "p' = k (entry_result e (w_inflight w))" by auto
    with ty_read [OF p [unfolded r]] w show ?thesis by (simp add: world_typed_def)
  next
    case False
    then show ?thesis using ty_sub [OF p exec_op_sub [OF op]] by blast
  qed
  moreover have "world_typed w'"
    unfolding world_typed_def
  proof (intro conjI ballI allI impI)
    fix ev
    assume "ev \<in> set (w_metrics w')"
    with exec_op_events [OF op] p w ty_emit show "emits ev" unfolding world_typed_def by metis
  next
    fix e r
    assume "entry_result e (w_inflight w') = Some r"
    with exec_op_results [OF op] p w ty_set show "stores r" unfolding world_typed_def by metis
  qed
  moreover have "ty None a" if "q = Some a" for a
    using op p that ty_spawn typed_drop_guard
    by (cases p) (auto simp: ask_def split: prod.splits permit.splits option.splits if_splits)
  ultimately show ?thesis by blast
qed

lemma sys_typed_spawn:
  assumes "sys_typed s" and "ids_ok s" and "\<And>a. q = Some a \<Longrightarrow> ty None a"
  shows "sys_typed (spawn_task q s)"
  using assms by (cases q) (auto simp: sys_typed_def spawn_task_tasks ids_ok_def)

lemma sys_typed_step:
  assumes step: "sstep x res serve s s'" and ids: "ids_ok s" and typed: "sys_typed s"
    and serve: "\<And>rq p. serve rq = Some p \<Longrightarrow> ty (Some rq) p"
  shows "sys_typed s'"
  using step
proof (cases rule: sstep.cases)
  case (arrive rq p)
  with typed serve show ?thesis by (auto simp: sys_typed_def)
next
  case (operate t p p' q w')
  from typed operate(2) have "ty (s_request s t) p" "world_typed (s_world s)"
    by (simp_all add: sys_typed_def)
  note n = typed_exec_op [OF operate(3) this]
  have "sys_typed (put_task t (Some p') (s\<lparr>s_world := w'\<rparr>))"
    using typed n by (simp add: sys_typed_def)
  moreover have "ids_ok (put_task t (Some p') (s\<lparr>s_world := w'\<rparr>))"
    using ids operate(2) by (simp add: ids_ok_put)
  ultimately show ?thesis unfolding operate(1) by (rule sys_typed_spawn) (use n in blast)
next
  case (finish t r)
  with typed show ?thesis by (simp add: sys_typed_def)
next
  case (disconnect t p)
  let ?w = "(s_world s)\<lparr>w_held := (w_held (s_world s))(t := None)\<rparr>"
  have "sys_typed (put_task t None (s\<lparr>s_world := ?w\<rparr>))"
    using typed by (simp add: sys_typed_def world_typed_def)
  moreover have "ids_ok (put_task t None (s\<lparr>s_world := ?w\<rparr>))"
    using ids disconnect(2) by (simp add: ids_ok_put)
  ultimately show ?thesis
    unfolding disconnect(1) drop_task_def Let_def
    by (rule sys_typed_spawn) (auto simp: typed_drop_guard split: option.splits)
next
  case (outside h u)
  with typed show ?thesis by (simp add: sys_typed_def world_typed_def)
qed

lemma reachable_typed:
  assumes "reachable x res serve h0 u0 s" and "\<And>rq p. serve rq = Some p \<Longrightarrow> ty (Some rq) p"
  shows "sys_typed s"
  using assms(1)
proof (induction rule: reachable.induct)
  case start
  show ?case by (simp add: sys_typed_def world_typed_def entry_result_def inflight_new_def)
next
  case (step s s')
  from sys_typed_step [OF step.hyps(2) reachable_ids_ok [OF step.hyps(1)] step.IH assms(2)]
  show ?case by blast
qed

end

section \<open>Metric calls and answers\<close>

text \<open>
  A call is typed if it names a vector that \<open>Metrics::new\<close> registered, of its kind, with as many
  label values as the vector has labels (the registry panics at any other call), and if each value is
  one of the few its label can have. Only the method of an authentication failure is free: it is the
  client's.
\<close>

definition label_values :: "rstr \<Rightarrow> rstr list" where
  "label_values label =
     (if label = lit ''method'' then [lit ''GET'', lit ''HEAD'', lit ''PUT'']
      else if label = lit ''status'' then [lit ''200'', lit ''400'', lit ''404'', lit ''502'']
      else if label = lit ''error_kind'' then map upstream_error_kind_as_str Enum.enum
      else [])"

definition labels_typed :: "metric_vec \<Rightarrow> rstr list \<Rightarrow> bool" where
  "labels_typed vec ls \<longleftrightarrow>
     (if vec = mx_auth_fail_total metrics_new then length ls = 1
      else list_all2 (\<lambda>v label. v \<in> set (label_values label)) ls (vec_labels vec))"

definition event_typed :: "metric_event \<Rightarrow> bool" where
  "event_typed ev \<longleftrightarrow>
     list_ex (\<lambda>vec. case ev of
         CounterIncrease name ls n \<Rightarrow> is_CounterVec vec \<and> vec_name vec = name \<and> labels_typed vec ls
       | HistogramRecord name ls v \<Rightarrow> \<not> is_CounterVec vec \<and> vec_name vec = name \<and> labels_typed vec ls)
       (metrics_vecs metrics_new)"

text \<open>The errors of the handlers; the middleware's own is 401.\<close>

definition error_typed :: "app_error \<Rightarrow> bool" where
  "error_typed e \<longleftrightarrow> ae_status e \<in> {400, 404, 502}"

definition result_typed :: "inflight_result \<Rightarrow> bool" where
  "result_typed r \<longleftrightarrow> (case r of Inl e \<Rightarrow> error_typed e | Inr en \<Rightarrow> True)"

text \<open>
  The answers of the object route by method: a \<open>GET\<close> sends bytes and announces their number, a \<open>HEAD\<close>
  announces a number and sends no body, a \<open>PUT\<close> sends neither body nor headers. (The number is read
  back from a header value, which has to keep plain digits.)
\<close>

definition object_answer :: "http_libs \<Rightarrow> rstr \<Rightarrow> http_response \<Rightarrow> bool" where
  "object_answer l method r \<longleftrightarrow> rs_status r = 200
     \<and> (if method = lit ''GET''
        then (case rs_body r of
                BytesBody bs \<Rightarrow> header_digits_ok l \<longrightarrow> announced_length l r = Some (length bs)
              | EmptyBody \<Rightarrow> False | TextBody s \<Rightarrow> False)
        else rs_body r = EmptyBody
          \<and> (if method = lit ''HEAD'' then header_digits_ok l \<longrightarrow> announced_length l r \<noteq> None
             else rs_headers r = Map.empty))"

definition answer_typed :: "http_libs \<Rightarrow> request \<Rightarrow> outcome \<Rightarrow> bool" where
  "answer_typed l rq out \<longleftrightarrow>
     (if rq_matched_path rq = Some (lit ''/stats'') then (case out of RespondJson s \<Rightarrow> True | _ \<Rightarrow> False)
      else (case out of
          Respond (Inl e) \<Rightarrow> rq_matched_path rq = Some object_route \<and> (error_typed e \<or> ae_status e = 401)
        | Respond (Inr r) \<Rightarrow>
            (if rq_matched_path rq = Some object_route then object_answer l (rq_method rq) r
             else rs_status r = 200 \<and> (case rs_body r of TextBody s \<Rightarrow> True | _ \<Rightarrow> False))
        | MethodNotAllowed \<Rightarrow> rq_matched_path rq = Some object_route \<and> rq_method rq \<notin> protected_methods
        | _ \<Rightarrow> False))"

primrec well_typed :: "prog \<Rightarrow> (outcome \<Rightarrow> bool) \<Rightarrow> bool" where
  "well_typed (Done r) = (\<lambda>A. A r)"
| "well_typed (CacheGet key k) = (\<lambda>A. \<forall>r. well_typed (k r) A)"
| "well_typed (CachePut key bs ct k) = well_typed k"
| "well_typed (CacheStats k) = (\<lambda>A. \<forall>r. well_typed (k r) A)"
| "well_typed (Acquire key k) = (\<lambda>A. \<forall>r. well_typed (k r) A)"
| "well_typed (SetResult e r k) = (\<lambda>A. result_typed r \<and> well_typed k A)"
| "well_typed (Release key e k) = well_typed k"
| "well_typed (Released k) = well_typed k"
| "well_typed (Notified e k) = well_typed k"
| "well_typed (AwaitNotified e k) = well_typed k"
| "well_typed (ReadResult e k) =
     (\<lambda>A. \<forall>r. (\<forall>v. r = Some v \<longrightarrow> result_typed v) \<longrightarrow> well_typed (k r) A)"
| "well_typed (StoreHead s l k) = (\<lambda>A. \<forall>r. well_typed (k r) A)"
| "well_typed (StoreGet s l k) = (\<lambda>A. \<forall>r. well_typed (k r) A)"
| "well_typed (ReadBytes h k) = (\<lambda>A. \<forall>r. well_typed (k r) A)"
| "well_typed (PutMultipart s l k) = (\<lambda>A. \<forall>r. well_typed (k r) A)"
| "well_typed (AwaitBody k) = well_typed k"
| "well_typed (WritePut h chunk k) = well_typed k"
| "well_typed (WriteFinish h k) = (\<lambda>A. \<forall>r. well_typed (k r) A)"
| "well_typed (WriteAbort h k) = well_typed k"
| "well_typed (Emit ev k) = (\<lambda>A. event_typed ev \<and> well_typed k A)"
| "well_typed (Gather k) = (\<lambda>A. \<forall>r. well_typed (k r) A)"
| "well_typed (Now k) = (\<lambda>A. \<forall>r. well_typed (k r) A)"
| "well_typed (UnixTime k) = (\<lambda>A. \<forall>r. well_typed (k r) A)"
| "well_typed (Spawn q k) = (\<lambda>A. well_typed q (\<lambda>r. r = Finished) \<and> well_typed k A)"

definition task_typed :: "http_libs \<Rightarrow> request option \<Rightarrow> prog \<Rightarrow> bool" where
  "task_typed l c p \<longleftrightarrow>
     well_typed p (case c of None \<Rightarrow> (\<lambda>r. r = Finished) | Some rq \<Rightarrow> answer_typed l rq)"

interpretation wt: task_type "task_typed l" event_typed result_typed for l
proof unfold_locales
  fix c p p'
  assume "task_typed l c p" "sub_prog p' p" "\<And>e k. p \<noteq> ReadResult e k"
  then show "task_typed l c p'"
    unfolding task_typed_def by (cases p) (auto elim: sub_prog.cases)
qed (auto simp: task_typed_def release_task_def split: option.split)

section \<open>The handlers are well typed\<close>

lemma method_values [simp]:
  "lit ''GET'' \<in> set (label_values (lit ''method''))" "lit ''HEAD'' \<in> set (label_values (lit ''method''))"
  "lit ''PUT'' \<in> set (label_values (lit ''method''))"
  by (simp_all add: label_values_def)

lemma status_values:
  "dec 200 \<in> set (label_values (lit ''status''))"
  "error_typed e \<Longrightarrow> dec (ae_status e) \<in> set (label_values (lit ''status''))"
  by (auto simp: label_values_def dec_statuses error_typed_def lit_eval)

lemma error_kind_values: "upstream_error_kind_as_str k \<in> set (label_values (lit ''error_kind''))"
  using enum_UNIV [where ?'a = upstream_error_kind] by (simp add: label_values_def lit_eval)

lemma event_typed_calls [simp]:
  "event_typed (inc_auth_fail m')"
  "m \<in> set (label_values (lit ''method'')) \<Longrightarrow> event_typed (inc_cache_hit m)"
  "m \<in> set (label_values (lit ''method'')) \<Longrightarrow> event_typed (inc_cache_miss m)"
  "m \<in> set (label_values (lit ''method'')) \<Longrightarrow> event_typed (inc_upstream_ok m)"
  "m \<in> set (label_values (lit ''method'')) \<Longrightarrow> event_typed (inc_upstream_err m e)"
  "m \<in> set (label_values (lit ''method'')) \<Longrightarrow> event_typed (observe_upstream_latency_ms m v)"
  "m \<in> set (label_values (lit ''method'')) \<Longrightarrow> s \<in> set (label_values (lit ''status'')) \<Longrightarrow>
     event_typed (inc_requests m s)"
  using error_kind_values [of e]
  by (simp_all add: event_typed_def metric_event_defs labels_typed_def metrics_vecs_def metrics_new_def)

lemma error_typed_simps [simp]:
  "error_typed (bad_request m)" "error_typed (not_found m)" "error_typed (from_store e)"
  "ae_status (unauthorized m) = 401"
  by (cases e; simp add: error_typed_def bad_request_def unauthorized_def not_found_def)+

lemma result_typed_simps [simp]:
  "result_typed (Inl e) \<longleftrightarrow> error_typed e" "result_typed (Inr en)"
  by (simp_all add: result_typed_def)

lemma typed_upstream:
  "m \<in> set (label_values (lit ''method'')) \<Longrightarrow>
     well_typed (upstream_failed m s e k) A \<longleftrightarrow> well_typed k A"
  "m \<in> set (label_values (lit ''method'')) \<Longrightarrow>
     well_typed (upstream_succeeded m s k) A \<longleftrightarrow> well_typed k A"
  by (simp_all add: upstream_failed_def upstream_succeeded_def)

lemma typed_fetch:
  "m \<in> set (label_values (lit ''method'')) \<Longrightarrow> (\<And>r. result_typed r \<Longrightarrow> well_typed (k r) A) \<Longrightarrow>
     well_typed (fetch_and_cache_entry l st key b p m k) A"
  by (simp add: fetch_and_cache_entry_def Let_def typed_upstream split: option.split sum.split)

lemma typed_complete:
  "result_typed r \<Longrightarrow> well_typed k A \<Longrightarrow> well_typed (complete g r k) A"
  by (simp add: complete_def)

text \<open>What a handler of the object route may answer: a typed error or a typed response.\<close>

definition object_outcome :: "http_libs \<Rightarrow> rstr \<Rightarrow> outcome \<Rightarrow> bool" where
  "object_outcome l method out \<longleftrightarrow>
     (case out of
        Respond (Inl e) \<Rightarrow> error_typed e | Respond (Inr r) \<Rightarrow> object_answer l method r | _ \<Rightarrow> False)"

lemma object_outcome_simps [simp]:
  "object_outcome l m (Respond (Inl e)) \<longleftrightarrow> error_typed e"
  "object_outcome l m (Respond (Inr r)) \<longleftrightarrow> object_answer l m r"
  by (simp_all add: object_outcome_def)

lemma typed_finish [simp]:
  "m \<in> set (label_values (lit ''method'')) \<Longrightarrow> object_outcome l m (Respond r) \<Longrightarrow>
     well_typed (finish m r) (object_outcome l m)"
  by (cases r) (simp_all add: finish_def status_label_def status_values object_answer_def)

lemma object_answers [simp]:
  "object_answer l (lit ''GET'') (build_response l en hit)"
  "object_answer l (lit ''HEAD'') (build_head_response l en)"
  "object_answer l (lit ''HEAD'') (build_head_response_with_meta l n ct)"
  "object_answer l (lit ''PUT'') build_put_response"
  by (simp_all add: object_answer_def announced_lengths lit_eval) (simp add: build_put_response_def)

lemma typed_get_object:
  "well_typed (get_object l st b p) (object_outcome l (lit ''GET''))"
proof -
  have f: "well_typed (respond_fetched l r) (object_outcome l (lit ''GET''))" if "result_typed r" for r
    using that by (cases r) (simp_all add: respond_fetched_def)
  then have "well_typed (get_object_waited l st b p r) (object_outcome l (lit ''GET''))"
    if "\<And>v. r = Some v \<Longrightarrow> result_typed v" for r
    using that by (auto simp: get_object_waited_def Let_def split: option.split sum.split
        intro!: typed_fetch)
  with f show ?thesis
    by (auto simp: get_object_def get_object_leader_def Let_def wait_def
        split: option.split permit.split intro!: typed_fetch typed_complete)
qed

lemma typed_head_prefetch: "well_typed (head_prefetch l st key b p) (\<lambda>r. r = Finished)"
  by (auto simp: head_prefetch_def split: permit.split intro!: typed_fetch typed_complete)

lemma typed_head_object:
  "well_typed (head_object l st b p params) (object_outcome l (lit ''HEAD''))"
  by (auto simp: head_object_def Let_def typed_head_prefetch typed_upstream
      split: option.split sum.split)

lemma typed_put_chunks:
  "well_typed failed A \<Longrightarrow> (\<And>bc. well_typed (k bc) A) \<Longrightarrow> well_typed (put_chunks h cap failed k items bc) A"
  by (induction h cap failed k items bc rule: put_chunks.induct) auto

lemma typed_put_object:
  "well_typed (put_object l st b p hs items) (object_outcome l (lit ''PUT''))"
  by (auto simp: put_object_def Let_def typed_upstream split: option.split sum.split
      intro!: typed_put_chunks)

lemma well_typed_mono: "well_typed p A \<Longrightarrow> (\<And>r. A r \<Longrightarrow> B r) \<Longrightarrow> well_typed p B"
  by (induction p) auto

lemma routes [simp]:
  "lit ''/stats'' \<noteq> lit ''/metrics''" "lit ''/stats'' \<noteq> lit ''/health''" "lit ''/metrics'' \<noteq> lit ''/health''"
  "object_route \<noteq> lit ''/stats''" "object_route \<noteq> lit ''/metrics''" "object_route \<noteq> lit ''/health''"
  by (simp_all add: lit_eval)

lemma typed_object_handler:
  assumes "object_handler l st rq = Some p" and "rq_matched_path rq = Some object_route"
  shows "well_typed p (answer_typed l rq)"
proof -
  have "well_typed p (object_outcome l (rq_method rq))"
    using assms(1)
    by (auto simp: object_handler_def typed_get_object typed_head_object
        typed_put_object split: option.splits prod.splits if_splits)
  then show ?thesis
    by (rule well_typed_mono) (auto simp: answer_typed_def object_outcome_def assms(2) split: outcome.splits sum.splits)
qed

lemma typed_run_server:
  assumes "run_server l a enc utf st rq = Some p"
  shows "task_typed l (Some rq) p"
proof -
  from assms obtain route where r: "rq_matched_path rq = Some route"
    by (auto simp: run_server_def Let_def split: option.splits)
  show ?thesis
  proof (cases "route = object_route")
    case True
    then have e: "answer_typed l rq (Respond (Inl e)) \<longleftrightarrow> error_typed e \<or> ae_status e = 401" for e
      using r by (simp add: answer_typed_def)
    have h: "well_typed (case object_handler l st rq of Some p \<Rightarrow> p | None \<Rightarrow> Done MethodNotAllowed)
        (answer_typed l rq)" if "rq_path_params rq \<noteq> None" "rq_query rq \<noteq> None"
    proof (cases "object_handler l st rq")
      case None
      with that have "rq_method rq \<notin> protected_methods"
        by (auto simp: object_handler_def protected_methods_def split: option.splits if_splits)
      with None r True show ?thesis by (simp add: answer_typed_def)
    next
      case (Some h)
      with typed_object_handler r True show ?thesis by simp
    qed
    with assms r True show ?thesis
      by (auto simp: run_server_def Let_def task_typed_def auth_middleware_def e
          split: option.splits sum.splits if_splits)
  next
    case False
    with assms r show ?thesis
      by (auto simp: run_server_def Let_def task_typed_def answer_typed_def stats_handler_def
          metrics_handler_def health_def split: if_splits)
  qed
qed

end
