(* ===== verification/Typed_Server.thy ===== *)
theory Typed_Server
  imports Typing
begin

text \<open>
  What the typing of theory \<open>Typing\<close> says of the running server: the answers it gives and the calls
  it makes to the metric registry, in every reachable state.
\<close>

section \<open>Answers\<close>

text \<open>
  C10: in every reachable state, under every schedule and whatever the outside answers, a task that has
  ended has the kind of answer its request asks for. On the object route that is an error with status
  400, 401, 404 or 502, or a 200 that for \<open>GET\<close> has a body and announces its exact length, for \<open>HEAD\<close>
  announces a length and has no body, and for \<open>PUT\<close> has neither body nor headers; a follower answers
  its leader's errors like its own. \<open>/stats\<close>, \<open>/metrics\<close> and \<open>/health\<close> never fail. A spawned task
  answers nobody.
\<close>

theorem answers_typed:
  assumes "reachable x res (run_server l a enc utf st) h0 u0 s"
    and "s_tasks s t = Some (Done out)"
  shows "case s_request s t of None \<Rightarrow> out = Finished | Some rq \<Rightarrow> answer_typed l rq out"
proof -
  have "wt.sys_typed l s"
    using assms(1) by (rule wt.reachable_typed) (rule typed_run_server)
  with assms(2) have "task_typed l (s_request s t) (Done out)" by (simp add: wt.sys_typed_def)
  then show ?thesis by (simp add: task_typed_def split: option.splits)
qed

theorem answers_typed_witness:
  "\<exists>s :: (mem_cache, mem_store) sys. \<exists>out.
     s_tasks s 0 = Some (Done out) \<and> s_request s 0 = Some mem_get_request
     \<and> answer_typed mem_libs mem_get_request out"
proof -
  obtain s out where s: "reachable ro_externals mem_resident mem_serve Map.empty (mem_store_new mem_objects) s"
    "s_request s = [0 \<mapsto> mem_get_request]" "s_tasks s 0 = Some (Done out)"
    using mem_get_done by blast
  from answers_typed [OF s(1) [unfolded mem_serve_def] s(3)] s(2,3) show ?thesis by fastforce
qed

section \<open>Metric calls\<close>

text \<open>A time series is a vector and its label values.\<close>

primrec series :: "metric_event \<Rightarrow> rstr \<times> rstr list" where
  "series (CounterIncrease name ls n) = (name, ls)"
| "series (HistogramRecord name ls v) = (name, ls)"

abbreviation auth_fail_total :: rstr where
  "auth_fail_total \<equiv> lit ''cachegate_auth_fail_total''"

definition known_series :: "(rstr \<times> rstr list) list" where
  "known_series = concat (map (\<lambda>vec. map (Pair (vec_name vec)) (product_lists (map label_values (vec_labels vec))))
     (filter (\<lambda>vec. vec_name vec \<noteq> auth_fail_total) (metrics_vecs metrics_new)))"

lemma length_known_series: "length known_series = 42"
  by (simp add: known_series_def metrics_vecs_def metrics_new_def label_values_def lit_eval
      enum_upstream_error_kind_def)

lemma typed_series_known:
  assumes "event_typed ev" and "fst (series ev) \<noteq> auth_fail_total"
  shows "series ev \<in> set known_series"
proof -
  obtain name ls where n: "series ev = (name, ls)" by (cases "series ev")
  with assms(1) obtain vec where v: "vec \<in> set (metrics_vecs metrics_new)" "vec_name vec = name"
    "labels_typed vec ls"
    by (cases ev) (auto simp: event_typed_def list_ex_iff)
  have "vec_name (mx_auth_fail_total metrics_new) = auth_fail_total" by (simp add: metrics_new_def)
  with v assms(2) n have "vec \<noteq> mx_auth_fail_total metrics_new" by auto
  with v(3) have "list_all2 (\<lambda>v label. v \<in> set (label_values label)) ls (vec_labels vec)"
    by (simp add: labels_typed_def)
  then have "ls \<in> set (product_lists (map label_values (vec_labels vec)))"
    by (simp add: product_lists_set list_all2_map2)
  with v(1,2) n assms(2) show ?thesis by (auto simp: known_series_def)
qed

text \<open>
  C36: every call the server ever makes to the metric registry names a vector that \<open>Metrics::new\<close>
  registered, of the right kind, with exactly its number of label values, so no label mismatch can
  make the registry panic, under any schedule. And apart from authentication failures the server
  creates at most 42 time series, whatever clients send and stores answer.
\<close>

theorem metric_calls_typed:
  assumes "reachable x res (run_server l a enc utf st) h0 u0 s"
  shows "(\<forall>ev \<in> set (w_metrics (s_world s)). event_typed ev)
    \<and> card {sr \<in> series ` set (w_metrics (s_world s)). fst sr \<noteq> auth_fail_total} \<le> 42"
proof -
  have "wt.sys_typed l s"
    using assms by (rule wt.reachable_typed) (rule typed_run_server)
  then have typed: "\<forall>ev \<in> set (w_metrics (s_world s)). event_typed ev"
    by (simp add: wt.sys_typed_def wt.world_typed_def)
  then have "{sr \<in> series ` set (w_metrics (s_world s)). fst sr \<noteq> auth_fail_total} \<subseteq> set known_series"
    using typed_series_known by blast
  then have "card {sr \<in> series ` set (w_metrics (s_world s)). fst sr \<noteq> auth_fail_total} \<le> 42"
    using card_mono [OF finite_set] card_length [of known_series] length_known_series
    by (metis (no_types, lifting) order_trans)
  with typed show ?thesis by blast
qed

lemma mem_refused:
  "\<exists>s. reachable mem_externals mem_resident mem_serve Map.empty (mem_store_new mem_objects) s
     \<and> w_metrics (s_world s) = [inc_auth_fail (lit ''GET'')]"
proof -
  let ?rq = "mem_request (lit ''bad'') (lit ''GET'') (lit ''a.txt'') []"
  have "mem_serve ?rq = Some (UnixTime (\<lambda>now. Emit (inc_auth_fail (lit ''GET''))
      (Done (Respond (Inl (unauthorized (lit ''invalid auth'')))))))"
    by (simp add: mem_serve_def run_server_def protected_methods_def auth_middleware_def
        mem_bearer_bad authenticate_def try_bearer_cases Let_def)
  from arrive_and_run [of mem_serve ?rq, OF this, of mem_externals mem_resident Map.empty
      "mem_store_new mem_objects"]
  show ?thesis by (auto simp: exec_simps)
qed

theorem metric_calls_typed_witness:
  "event_typed (inc_auth_fail (lit ''GET''))"
proof -
  obtain s where s: "reachable mem_externals mem_resident mem_serve Map.empty (mem_store_new mem_objects) s"
    "w_metrics (s_world s) = [inc_auth_fail (lit ''GET'')]" using mem_refused by blast
  from metric_calls_typed [OF s(1) [unfolded mem_serve_def]] s(2)
  show ?thesis by simp
qed

end
