(* ===== verification/Guards.thy ===== *)
theory Guards
  imports Flight
begin

text \<open>
  What a task holds at each operation of the in-flight protocol, in every reachable state: the
  discipline \<open>disc\<close> of theory \<open>Single_Flight\<close> read back on the concrete state.
\<close>

section \<open>What the next operation needs\<close>

text \<open>
  What a task holds when it is about to run an operation of the in-flight protocol. \<open>Release\<close> is
  where the Rust code compares the entry found with its own (\<open>Arc::ptr_eq\<close>).
\<close>

definition guard_typed :: "('h, 'u) sys \<Rightarrow> tid \<Rightarrow> prog \<Rightarrow> bool" where
  "guard_typed s t p \<longleftrightarrow>
     (let held = w_held (s_world s) t; table = inner (w_inflight (s_world s)) in
      case p of
        Acquire key k \<Rightarrow> held = None
      | SetResult e r k \<Rightarrow>
          (case held of
             None \<Rightarrow> False
           | Some g \<Rightarrow> ig_entry g = e \<and> \<not> ig_released g \<and> table (ig_key g) = Some e)
      | Release key e k \<Rightarrow> table key = Some e
          \<and> (held = Some \<lparr>ig_key = key, ig_entry = e, ig_released = False\<rparr>
             \<or> held = None \<and> s_detached s t)
      | Released k \<Rightarrow> (case held of None \<Rightarrow> False | Some g \<Rightarrow> \<not> ig_released g)
      | Notified e k \<Rightarrow> held = None
      | AwaitNotified e k \<Rightarrow> held = None
      | ReadResult e k \<Rightarrow> held = None
      | Done r \<Rightarrow> held = None
      | _ \<Rightarrow> True)"

text \<open>
  C9: in every reachable state each task holds what its next operation needs: it acquires, waits and
  ends without a guard; it stores a result only in the entry of the guard it holds, while that entry
  is in the table; and whoever releases an entry, the guard's holder or the task of a dropped guard,
  finds that very entry in the table. So the branches of \<open>release\<close> for a missing or a foreign entry
  are never taken, no entry is released twice, and no task waits while others wait for it.
\<close>

theorem guards_typed:
  assumes "reachable x res (run_server l a enc utf st) h0 u0 s" and "s_tasks s t = Some p"
  shows "guard_typed s t p"
proof -
  obtain G where core: "flight_core G (s_tasks s) (w_held (s_world s)) (w_inflight (s_world s))"
    and det: "\<And>u k e. G u = Orphan k e \<Longrightarrow> s_detached s u"
    by (rule server_flight_core [OF assms(1)]) blast
  have d: "disc p (G t)" and h: "w_held (s_world s) t = held_by (G t)"
    using flight_coreD(3,4) [OF core] assms(2) by blast+
  have tok: "inner (w_inflight (s_world s)) k = Some e" if "token (G t) = Some (k, e)" for k e
    using flight_coreD(5) [OF core that] .
  show ?thesis
    using d h tok det [of t] by (cases p) (auto simp: guard_typed_def Let_def)
qed

theorem guards_typed_witness:
  "\<exists>s :: (mem_cache, mem_store) sys. \<exists>p. s_tasks s 1 = Some p \<and> guard_typed s 1 p
     \<and> inner (w_inflight (s_world s)) mem_key = Some 0 \<and> w_held (s_world s) 1 = None"
proof -
  obtain s k where s: "reachable mem_externals mem_resident mem_serve Map.empty (mem_store_new mem_objects) s"
    "inner (w_inflight (s_world s)) mem_key = Some 0" "s_tasks s 1 = Some (AwaitNotified 0 k)"
    using mem_registered by blast
  have g: "guard_typed s 1 (AwaitNotified 0 k)"
    by (rule guards_typed [OF s(1) [unfolded mem_serve_def] s(3)])
  then have "w_held (s_world s) 1 = None" by (simp add: guard_typed_def)
  with g s(2,3) show ?thesis by blast
qed

end
