(* ===== verification/Spec2Isabelle.thy ===== *)
theory Spec2Isabelle
  imports Isolation Progress Credentials Storage Reporting Launch Lease_Refinement Typed_Server Guards
begin

text \<open>
  Cachegate is an HTTP cache in front of object stores. A request names a bucket and a path; it is
  admitted by a bearer token or by a presigned link; \<open>GET\<close> and \<open>HEAD\<close> answer from a cache and fetch
  from the configured store on a miss, one leader per key while its followers wait; \<open>PUT\<close> streams the
  body to the store and keeps a copy for the cache if it is not too long. This development models the
  program under \<open>src/src/\<close> and proves what makes it correct. File and function names below are
  relative to that directory.

  \<^bold>\<open>How the model reads.\<close> Data are records and datatypes with the fields and constructors of the Rust
  types; a \<open>u64\<close> is a 64-bit word and wraps where the code's addition does; a string is the list of
  its scalar values; \<open>Result\<close> is a sum with \<open>Inl\<close> for \<open>Err\<close>. A hash map is an association list where
  its iteration order can show, and a partial map elsewhere. Synchronous code is HOL functions.
  An \<open>async fn\<close> is a \<open>prog\<close>, the tree of the calls it makes that touch shared state, each with the
  continuation on its result (theory Program); the tree branches where the code awaits or calls, so a
  schedule can stop a request between any two of them. Library code is a parameter: \<open>auth_libs\<close>
  (Base64, Ed25519, the JSON reading of payloads), \<open>http_libs\<close> (URL and header handling, and whether
  axum runs the middleware for a method without a handler, which no property assumes either way),
  \<open>externals\<close> (the object stores, the hybrid cache, the clock), \<open>store_builders\<close>, \<open>foyer_builders\<close> and
  \<open>main_libs\<close> (what \<open>main\<close> calls at start-up). What is relied on is stated as named hypotheses,
  \<open>hybrid_lawful\<close> for the cache, \<open>upstream_faithful\<close> for the stores, and the few on single calls in
  the statements that need them; each is met by the concrete outside of theory In_Memory, on which
  the witnesses run.

  \<^bold>\<open>The program, theory by theory.\<close>
  \<^item> Prelude, Rust_Str, Float64: machine integers, results, generic lemmas on lists and maps; the part
    of Rust's \<open>str\<close> in use (search, split, trim, ASCII case, decimal printing); \<open>f64\<close> with its
    rounding, which is exact on integers up to \<open>2 ^ 53\<close>.
  \<^item> Config models \<open>config.rs\<close>: the configuration records and \<open>load_from_env\<close>.
  \<^item> Auth models \<open>auth.rs\<close>: \<open>auth_error\<close>, \<open>presign_payload\<close>, \<open>from_config\<close>, \<open>verify\<close>, \<open>verify_bearer\<close>.
  \<^item> Cache models \<open>cache/mod.rs\<close> and \<open>cache/foyer.rs\<close>: the locale \<open>cache_backend\<close> is the trait
    \<open>CacheBackend\<close> with the laws its clients need, \<open>counted_backend\<close> adds \<open>stats\<close>; both are
    interpreted on \<open>foyer_get\<close>, \<open>foyer_put\<close>, \<open>foyer_stats\<close>.
  \<^item> Inflight models \<open>inflight.rs\<close>: entries on a heap (the \<open>Arc\<close>s), guards, \<open>acquire\<close>, \<open>complete\<close>,
    \<open>wait\<close>, \<open>release\<close>, with \<open>Notify\<close> in its first section and the table as a locale in its last.
  \<^item> Metrics models \<open>metrics.rs\<close>: the vectors \<open>Metrics::new\<close> registers, each \<open>inc\<close> and \<open>observe\<close>
    method as the call it makes, \<open>snapshot\<close> and the sums it takes.
  \<^item> Azure_Conn models \<open>store/azure.rs\<close> (\<open>parse_connection_string\<close> and the builder calls), Stores
    models \<open>store/mod.rs\<close> (\<open>build_stores\<close>).
  \<^item> Handlers models the handlers, errors and response builders of \<open>handler.rs\<close>; Server models its
    authentication middleware, \<open>parse_bearer_token\<close>, and the routes and request spans of
    \<open>run_server\<close> in \<open>main.rs\<close>.
  \<^item> Startup models \<open>run_keygen\<close> and \<open>async_main\<close> of \<open>main.rs\<close>; Launch models its \<open>main\<close>, the
    Sentry and logging set-up, and the binding of the listener.

  \<^bold>\<open>How the parts run together.\<close> Semantics gives each operation of a \<open>prog\<close> its effect on a world (cache,
  outside, in-flight table, guards held) and defines \<open>run\<close>, an undisturbed run to the end or to a wait;
  \<open>run\<close> is total, by recursion on the tree, and needs no fuel. Concurrency is the step relation on all
  requests at once: any number of tasks interleaved operation by operation, arrivals, spawned tasks,
  clients that disconnect at an await (dropping the guard), and an outside that changes at any time.
  \<open>reachable\<close> is its closure; the properties below about the server hold in all of it. Where a property
  names a run (\<open>advance n\<close>), n is the number of operations of that very schedule.

  \<^bold>\<open>What is shown.\<close>
  \<^item> Single_Flight, Flight: the guard discipline of the handlers is an invariant of every step; at most
    one leader per key; an entry of the table can always be removed by its owner alone; a state in
    which nothing can step has an empty table. Guards reads the discipline back as what each operation
    finds when it runs.
  \<^item> Lease_Spec, Lease_Refinement: an abstract specification of single flight (a key is free or leased,
    a lease is settled once), the locale \<open>simulation\<close>, and the proof that every step of the server is
    at most one step of the specification; the followers of a flight read one result.
  \<^item> Wakeups: a follower registered in time is woken; one that registers after the release waits for
    ever, with the schedule that leads there.
  \<^item> Isolation: what the cache and the answers contain under any interleaving: only bodies that the
    upstream held for, or an admitted client brought to, that very key, and nothing over the cap; a disk
    cache may start with entries of an earlier run, of which the first is assumed.
  \<^item> Requests, Head_Requests, Put_Requests: each request on every branch when nothing disturbs it, the
    order of calls to the store, the counting of requests, \<open>PUT\<close> followed by \<open>GET\<close>. Progress: which
    requests can block, and the schedule in which an upload is undone by a concurrent read.
  \<^item> Credentials, Storage, Reporting: exactly what a link or a token opens; connection strings read
    back as printed; the store map; what \<open>/stats\<close> and \<open>/metrics\<close> report, and the \<open>f64\<close>
    bound on it.
  \<^item> Typing, Typed_Server: a typing of programs that every step preserves; so every answer has the form
    of its request and every metric call the labels of its vector.
  \<^item> Startup, Launch: what a server that starts is made of, and when the process serves, fails,
    panics or is ended by clap. This theory puts them together.

  \<^bold>\<open>Not modelled.\<close> Log lines and the recording of values into spans (no state of the program depends
  on them; the fields and layers themselves are modelled); Tokio's runtime and the accepting of
  connections, replaced by the step relation; axum's extractors and its matching of URLs beyond the
  route table; the internals of Foyer, \<open>object_store\<close>, the Prometheus registry, Sentry, Serde and the
  cryptographic libraries, which are parameters; \<open>Metrics::registry\<close> and \<open>owned_label\<close>, which only
  clone; the unit tests and \<open>tests/integration.rs\<close>.
  Panics inside library calls (printing to a closed standard output, a failing random generator). The
  body of a request is the list of the items its stream will yield, so a stream that never ends is not
  a request of the model. Allocation failure and overflow of
  \<open>usize\<close> lengths are out of reach of the bodies a server can hold and are not considered.
\<close>

section \<open>From the configuration to every state of the server\<close>

text \<open>
  C3: the parts together. If a fresh process comes to serve, then it read its arguments and a configuration, listens where
  that says, checks requests with the key pair it configures, has a store for exactly the configured
  buckets, and in every state its server can then reach, whatever clients, stores and the cache do: no
  key has two leaders, and every cached body is authentic for its key and, unless an earlier run left it
  on disk, within the cap that the configuration gives, which is never zero. (The keys of the
  configuration's hash map are distinct.)
\<close>

theorem launched_server_safe:
  assumes "pr_subscriber p0 = None" and "pr_served p0 = None"
    and "pr_served (snd (main ml argv p0)) = Some (st, cache, listener)"
    and "\<forall>a cfg. ml_parse_args ml argv = Inr a \<longrightarrow> main_config ml a (pr_files p0) = Inr cfg \<longrightarrow>
           distinct (map fst (cfg_stores cfg))"
    and "reachable x res (run_server (ml_http ml) (ml_auth ml) (ml_encode ml) (ml_utf8 ml) st)
           (fc_cache cache) u0 s"
    and "hybrid_lawful (ex_hybrid x) res" and "upstream_faithful x stored"
    and "recovered_authentic (ml_http ml) st stored res (fc_cache cache)"
  shows "\<exists>a cfg. ml_parse_args ml argv = Inr a \<and> main_config ml a (pr_files p0) = Inr cfg
    \<and> ml_bind ml (listen cfg) = Inr listener
    \<and> from_config (ml_auth ml) (cfg_auth cfg) = Inr (as_auth st)
    \<and> dom (as_stores st) = fst ` set (cfg_stores cfg)
    \<and> effective_cap (cfg_cache cfg) \<noteq> 0
    \<and> (\<forall>t t' key. leading s t key \<longrightarrow> leading s t' key \<longrightarrow> t = t')
    \<and> (\<forall>key en. foyer_resident res (w_cache (s_world s)) key en \<longrightarrow>
         authentic (ml_http ml) (ml_auth ml) st stored (s_request s) key (ce_bytes en)
         \<and> (length (ce_bytes en) \<le> unat (effective_cap (cfg_cache cfg))
            \<or> (\<exists>en'. res (fc_cache cache) key en' \<and> ce_bytes en = ce_bytes en')))"
proof -
  have "pr_served (snd (main ml argv p0)) \<noteq> None" using assms(3) by simp
  then obtain layers where "pr_subscriber (snd (main ml argv p0)) = Some layers"
    using served_has_subscriber [OF assms(1,2)] by blast
  then obtain a cfg addr where args: "ml_parse_args ml argv = Inr a" and cfg: "main_config ml a (pr_files p0) = Inr cfg"
    and started: "async_main (ml_auth ml) (ml_stores ml) (ml_foyer ml) cfg = Inr (st, cache, addr)"
    and bound: "ml_bind ml addr = Inr listener"
    using main_serves_iff [OF assms(1,2), of ml argv st cache listener layers] assms(3) by blast
  note parts = started_server [OF started assms(4) [rule_format, OF args cfg]]
  have "t = t'" if "leading s t key" "leading s t' key" for t t' key
    by (rule leading_unique [OF assms(5) that])
  with cached_authentic [OF assms(5-8)] args cfg bound parts show ?thesis
    by (intro exI [of _ a] exI [of _ cfg]) auto
qed

theorem launched_server_safe_witness:
  "\<exists>st cache. pr_served (snd (main mem_main [lit ''env''] mem_process))
      = Some (st, cache, 0)
    \<and> dom (as_stores st) = {lit ''b''} \<and> from_config mem_auth (cfg_auth mem_config) = Inr (as_auth st)"
proof -
  have f: "pr_subscriber mem_process = None" "pr_served mem_process = None" by (simp_all add: mem_process_def)
  obtain st cache where st: "pr_served (snd (main mem_main [lit ''env''] mem_process)) = Some (st, cache, 0)"
    "fc_cache cache = Map.empty"
    using mem_main_serves by blast
  have d: "\<forall>a cfg. ml_parse_args mem_main [lit ''env''] = Inr a \<longrightarrow>
      main_config mem_main a (pr_files mem_process) = Inr cfg \<longrightarrow> distinct (map fst (cfg_stores cfg))"
    by (auto simp: mem_main_args mem_main_config) (simp add: mem_config_def)
  have e: "recovered_authentic (ml_http mem_main) st (\<lambda>s l bs. mem_objects (s, l) = Some bs)
      mem_resident (fc_cache cache)"
    by (rule recovered_authentic_empty) (simp add: st(2) mem_resident_def)
  have h: "hybrid_lawful (ex_hybrid ro_externals) mem_resident" by (simp add: mem_hybrid_lawful)
  note safe = launched_server_safe [OF f st(1)]
  note safe = safe [OF d]
  note safe = safe [OF reachable.start [where x = ro_externals and res = mem_resident]]
  note safe = safe [OF h]
  note safe = safe [OF ro_faithful]
  from safe [OF e]
  obtain a cfg where "ml_parse_args mem_main [lit ''env''] = Inr a"
    "main_config mem_main a (pr_files mem_process) = Inr cfg"
    "from_config (ml_auth mem_main) (cfg_auth cfg) = Inr (as_auth st)"
    "dom (as_stores st) = fst ` set (cfg_stores cfg)" by blast
  moreover have "ml_auth mem_main = mem_auth" by (simp add: mem_main_def)
  ultimately have "from_config mem_auth (cfg_auth mem_config) = Inr (as_auth st)"
    "dom (as_stores st) = fst ` set (cfg_stores mem_config)" by (auto simp: mem_main_args mem_main_config)
  with st(1) show ?thesis by (auto simp: mem_config_def)
qed

end
